theory Spec2Isabelle
  imports Main "HOL-Library.AList" "HOL-Library.Char_ord" "HOL-Library.List_Lexorder"
    "HOL-Library.Sublist"
begin

section \<open>Strings of the preprocessing script\<close>

text \<open>
  The script \<^verbatim>\<open>scripts/preprocess_data.py\<close> works on Python \<^verbatim>\<open>str\<close> values. A string is
  modelled as a \<^typ>\<open>string\<close> whose characters stand for the code points below 256. On
  that range \<^verbatim>\<open>str.isspace\<close> (used by \<^verbatim>\<open>strip\<close> and by \<^verbatim>\<open>\s\<close>) holds for
  the twelve characters listed in \<open>is_space\<close>, \<^verbatim>\<open>\d\<close> matches the ten ASCII digits only,
  and \<^verbatim>\<open>[a-zA-Z]\<close> the 52 ASCII letters. Strings compare as Python compares them:
  lexicographically by code point.
\<close>

definition is_space :: "char \<Rightarrow> bool" where
  "is_space c = (c \<in> set [CHR 0x09, CHR 0x0A, CHR 0x0B, CHR 0x0C, CHR 0x0D,
                           CHR 0x1C, CHR 0x1D, CHR 0x1E, CHR 0x1F, CHR 0x20,
                           CHR 0x85, CHR 0xA0])"

definition is_digit :: "char \<Rightarrow> bool" where
  "is_digit c = (c \<in> set ''0123456789'')"

definition ascii_lowercase :: string where
  "ascii_lowercase = ''abcdefghijklmnopqrstuvwxyz''"

definition ascii_uppercase :: string where
  "ascii_uppercase = ''ABCDEFGHIJKLMNOPQRSTUVWXYZ''"

definition is_alpha :: "char \<Rightarrow> bool" where
  "is_alpha c = (c \<in> set (ascii_lowercase @ ascii_uppercase))"

text \<open>\<^verbatim>\<open>s.strip()\<close>: whitespace is removed at both ends.\<close>

definition strip :: "string \<Rightarrow> string" where
  "strip s = rev (dropWhile is_space (rev (dropWhile is_space s)))"

text \<open>
  \<^verbatim>\<open>s.upper()\<close>. The script applies it to the book part of a citation only, which the
  citation pattern restricts to digits, whitespace and ASCII letters; there it maps
  \<^verbatim>\<open>a..z\<close> to \<^verbatim>\<open>A..Z\<close> and keeps every other character.
\<close>

definition upper_char :: "char \<Rightarrow> char" where
  "upper_char c = (case map_of (zip ascii_lowercase ascii_uppercase) c of
                     Some u \<Rightarrow> u | None \<Rightarrow> c)"

definition upper :: "string \<Rightarrow> string" where
  "upper s = map upper_char s"

text \<open>Python's truth value of an optional string: neither \<^verbatim>\<open>None\<close> nor empty.\<close>

fun truthy :: "string option \<Rightarrow> bool" where
  "truthy None = False"
| "truthy (Some s) = (s \<noteq> [])"

subsection \<open>Decimal numbers: \<^verbatim>\<open>int(s)\<close> and \<^verbatim>\<open>str(n)\<close>\<close>

definition digit_char :: "nat \<Rightarrow> char" where
  "digit_char d = ''0123456789'' ! d"

fun str_nat :: "nat \<Rightarrow> string" where
  "str_nat n = (if n < 10 then [digit_char n] else str_nat (n div 10) @ [digit_char (n mod 10)])"

declare str_nat.simps [simp del]

text \<open>The text an f-string puts for an integer.\<close>

definition str_int :: "int \<Rightarrow> string" where
  "str_int i = (if i < 0 then CHR ''-'' # str_nat (nat (- i)) else str_nat (nat i))"

definition digit_val :: "char \<Rightarrow> int" where
  "digit_val c = int (length (takeWhile (\<lambda>d. d \<noteq> c) ''0123456789''))"

text \<open>
  The digits of an integer literal as \<^verbatim>\<open>int\<close> accepts them: a digit, then digits each
  optionally preceded by one underscore. The accumulator is the value read so far.
\<close>

fun int_digits :: "int \<Rightarrow> string \<Rightarrow> int option" where
  "int_digits acc [] = Some acc"
| "int_digits acc [c] = (if is_digit c then Some (10 * acc + digit_val c) else None)"
| "int_digits acc (c # d # cs) =
     (if is_digit c then int_digits (10 * acc + digit_val c) (d # cs)
      else if c = CHR ''_'' \<and> is_digit d then int_digits acc (d # cs)
      else None)"

text \<open>
  The whitespace that \<^verbatim>\<open>int\<close> skips around a number. CPython keeps the characters
  below 127 as they are and skips those of C's \<^verbatim>\<open>isspace\<close> (tab to carriage return, and
  the space); a character from 127 on counts when \<^verbatim>\<open>str.isspace\<close> holds for it. The
  separators \<^verbatim>\<open>0x1C\<close> to \<^verbatim>\<open>0x1F\<close>, which \<^verbatim>\<open>strip\<close> removes, make \<^verbatim>\<open>int\<close> fail.
\<close>

definition is_int_space :: "char \<Rightarrow> bool" where
  "is_int_space c = (c \<in> set [CHR 0x09, CHR 0x0A, CHR 0x0B, CHR 0x0C, CHR 0x0D, CHR 0x20,
                               CHR 0x85, CHR 0xA0])"

definition int_strip :: "string \<Rightarrow> string" where
  "int_strip s = rev (dropWhile is_int_space (rev (dropWhile is_int_space s)))"

text \<open>
  The interpreter's limit on the number of digits of a decimal string that \<^verbatim>\<open>int\<close>
  converts (\<^verbatim>\<open>sys.get_int_max_str_digits()\<close>); the script leaves it at its default. The
  digits are counted without the sign and the underscores.
\<close>

definition int_max_str_digits :: nat where
  "int_max_str_digits = 4300"

text \<open>
  \<^verbatim>\<open>int(s)\<close> for a string: surrounding whitespace is skipped, one sign is allowed, the
  rest must start with a digit and hold no more digits than the limit. \<open>None\<close> stands
  for the \<^verbatim>\<open>ValueError\<close>.
\<close>

definition int_of_digits :: "string \<Rightarrow> int option" where
  "int_of_digits s =
     (case s of
        [] \<Rightarrow> None
      | c # cs \<Rightarrow>
          if is_digit c \<and> length (filter is_digit s) \<le> int_max_str_digits
          then int_digits 0 s else None)"

definition py_int_str :: "string \<Rightarrow> int option" where
  "py_int_str s =
     (case int_strip s of
        [] \<Rightarrow> None
      | c # cs \<Rightarrow>
          if c = CHR ''-'' then map_option uminus (int_of_digits cs)
          else if c = CHR ''+'' then int_of_digits cs
          else int_of_digits (c # cs))"

text \<open>
  \<^verbatim>\<open>int(x)\<close> where \<^verbatim>\<open>x\<close> comes from \<^verbatim>\<open>Element.get\<close>: \<^verbatim>\<open>int(None)\<close> raises \<^verbatim>\<open>TypeError\<close>,
  which the script catches together with \<^verbatim>\<open>ValueError\<close>.
\<close>

fun py_int :: "string option \<Rightarrow> int option" where
  "py_int None = None"
| "py_int (Some s) = py_int_str s"

section \<open>The citation pattern\<close>

text \<open>
  \<^verbatim>\<open>verse_pattern\<close> is the regular expression
  \<^verbatim>\<open>^\s*(\d*\s*[a-zA-Z]+)\.?\s*(\d+)\.(\d+)(?:-\s*(?:\d+|[a-zA-Z]+\.?\s*\d+\.\d+))?\s*$\<close>.
  Python matches by backtracking: each part lists the ways it can match in the order in
  which the engine tries them (a greedy repetition: longest first; an alternation: left
  first; an optional part: present first), and the match is the first way in which the
  whole pattern succeeds. A matcher returns these ways as a list of pairs (matched text,
  rest of the input), in that order.
\<close>

fun star_cls :: "(char \<Rightarrow> bool) \<Rightarrow> string \<Rightarrow> (string \<times> string) list" where
  "star_cls p [] = [([], [])]"
| "star_cls p (c # cs) =
     (if p c then map (\<lambda>(m, r). (c # m, r)) (star_cls p cs) @ [([], c # cs)]
      else [([], c # cs)])"

definition plus_cls :: "(char \<Rightarrow> bool) \<Rightarrow> string \<Rightarrow> (string \<times> string) list" where
  "plus_cls p s = filter (\<lambda>(m, r). m \<noteq> []) (star_cls p s)"

definition lit_chr :: "char \<Rightarrow> string \<Rightarrow> (string \<times> string) list" where
  "lit_chr c s = (case s of [] \<Rightarrow> [] | x # xs \<Rightarrow> if x = c then [([c], xs)] else [])"

definition opt_chr :: "char \<Rightarrow> string \<Rightarrow> (string \<times> string) list" where
  "opt_chr c s = lit_chr c s @ [([], s)]"

text \<open>\<^verbatim>\<open>$\<close> without \<^verbatim>\<open>re.MULTILINE\<close>: the end of the string, or just before a final newline.\<close>

definition at_end :: "string \<Rightarrow> bool" where
  "at_end s = (s = [] \<or> s = [CHR 0x0A])"

text \<open>\<^verbatim>\<open>(?:\d+|[a-zA-Z]+\.?\s*\d+\.\d+)\<close>: the rests after each way to match.\<close>

definition range_alt :: "string \<Rightarrow> string list" where
  "range_alt s =
     map snd (plus_cls is_digit s) @
     [r6. (b, r1) \<leftarrow> plus_cls is_alpha s, (d, r2) \<leftarrow> opt_chr CHR ''.'' r1,
          (w, r3) \<leftarrow> star_cls is_space r2, (c, r4) \<leftarrow> plus_cls is_digit r3,
          (e, r5) \<leftarrow> lit_chr CHR ''.'' r4, (v, r6) \<leftarrow> plus_cls is_digit r5]"

text \<open>\<^verbatim>\<open>(?:-\s*(?:...))?\<close>: the range tail is tried first, then its absence.\<close>

definition range_tail :: "string \<Rightarrow> string list" where
  "range_tail s =
     [r3. (h, r1) \<leftarrow> lit_chr CHR ''-'' s, (w, r2) \<leftarrow> star_cls is_space r1,
          r3 \<leftarrow> range_alt r2] @ [s]"

text \<open>All ways in which the whole pattern matches, each with its groups 1, 2 and 3.\<close>

definition verse_pattern_matches :: "string \<Rightarrow> (string \<times> string \<times> string) list" where
  "verse_pattern_matches s =
     [(d @ w @ l, chapter, verse).
        (w0, r0) \<leftarrow> star_cls is_space s,
        (d, r1) \<leftarrow> star_cls is_digit r0, (w, r2) \<leftarrow> star_cls is_space r1,
        (l, r3) \<leftarrow> plus_cls is_alpha r2,
        (dot, r4) \<leftarrow> opt_chr CHR ''.'' r3, (w1, r5) \<leftarrow> star_cls is_space r4,
        (chapter, r6) \<leftarrow> plus_cls is_digit r5,
        (dot', r7) \<leftarrow> lit_chr CHR ''.'' r6,
        (verse, r8) \<leftarrow> plus_cls is_digit r7,
        r9 \<leftarrow> range_tail r8,
        (w2, r10) \<leftarrow> star_cls is_space r9,
        at_end r10]"

text \<open>\<^verbatim>\<open>verse_pattern.match(ref_string)\<close>: \<open>None\<close> or the groups of the first match.\<close>

definition verse_pattern_match :: "string \<Rightarrow> (string \<times> string \<times> string) option" where
  "verse_pattern_match s = (case verse_pattern_matches s of [] \<Rightarrow> None | g # _ \<Rightarrow> Some g)"

section \<open>Canon and abbreviation tables\<close>

text \<open>
  \<^verbatim>\<open>PROTESTANT_CANON_CODES\<close> is a Python set literal. Its elements are listed here in the
  order of the literal, which is the reading order Genesis to Revelation; the set itself
  carries no order.
\<close>

definition canon_codes_listed :: "string list" where
  "canon_codes_listed =
    [''GEN'', ''EXO'', ''LEV'', ''NUM'', ''DEU'', ''JOS'', ''JDG'', ''RUT'', ''1SA'', ''2SA'',
     ''1KI'', ''2KI'', ''1CH'', ''2CH'', ''EZR'', ''NEH'', ''EST'', ''JOB'', ''PSA'', ''PRO'',
     ''ECC'', ''SNG'', ''ISA'', ''JER'', ''LAM'', ''EZK'', ''DAN'', ''HOS'', ''JOL'', ''AMO'',
     ''OBA'', ''JON'', ''MIC'', ''NAM'', ''HAB'', ''ZEP'', ''HAG'', ''ZEC'', ''MAL'', ''MAT'',
     ''MRK'', ''LUK'', ''JHN'', ''ACT'', ''ROM'', ''1CO'', ''2CO'', ''GAL'', ''EPH'', ''PHP'',
     ''COL'', ''1TH'', ''2TH'', ''1TI'', ''2TI'', ''TIT'', ''PHM'', ''HEB'', ''JAS'', ''1PE'',
     ''2PE'', ''1JN'', ''2JN'', ''3JN'', ''JUD'', ''REV'']"

definition PROTESTANT_CANON_CODES :: "string set" where
  "PROTESTANT_CANON_CODES = set canon_codes_listed"

text \<open>\<^verbatim>\<open>ABBR_MAP\<close>, the dictionary literal (no key occurs twice in it).\<close>

definition ABBR_MAP_items :: "(string \<times> string) list" where
  "ABBR_MAP_items =
    [(''Gen'', ''GEN''), (''Exod'', ''EXO''), (''Ex'', ''EXO''), (''Lev'', ''LEV''),
     (''Num'', ''NUM''), (''Deut'', ''DEU''),
     (''Josh'', ''JOS''), (''Judg'', ''JDG''), (''Jdgs'', ''JDG''), (''Ruth'', ''RUT''),
     (''1 Sam'', ''1SA''), (''2 Sam'', ''2SA''), (''1Sam'', ''1SA''), (''2Sam'', ''2SA''),
     (''1 Kgs'', ''1KI''), (''1Kgs'', ''1KI''),
     (''2 Kgs'', ''2KI''), (''2Kgs'', ''2KI''),
     (''1 Chr'', ''1CH''), (''1Chr'', ''1CH''),
     (''2 Chr'', ''2CH''), (''2Chr'', ''2CH''),
     (''Ezra'', ''EZR''), (''Neh'', ''NEH''), (''Esth'', ''EST''), (''Job'', ''JOB''),
     (''Ps'', ''PSA''), (''Psa'', ''PSA''),
     (''Prov'', ''PRO''), (''Eccl'', ''ECC''), (''Song'', ''SNG''), (''Isa'', ''ISA''),
     (''Jer'', ''JER''),
     (''Lam'', ''LAM''), (''Ezek'', ''EZK''), (''Dan'', ''DAN''), (''Hos'', ''HOS''),
     (''Joel'', ''JOL''),
     (''Amos'', ''AMO''), (''Obad'', ''OBA''), (''Jonah'', ''JON''), (''Mic'', ''MIC''),
     (''Nah'', ''NAM''),
     (''Hab'', ''HAB''), (''Zeph'', ''ZEP''), (''Hag'', ''HAG''), (''Zech'', ''ZEC''),
     (''Mal'', ''MAL''),
     (''Matt'', ''MAT''), (''Mark'', ''MRK''), (''Mk'', ''MRK''), (''Luke'', ''LUK''),
     (''Lk'', ''LUK''),
     (''John'', ''JHN''), (''Jn'', ''JHN''),
     (''Acts'', ''ACT''), (''Rom'', ''ROM''),
     (''1 Cor'', ''1CO''), (''1Cor'', ''1CO''),
     (''2 Cor'', ''2CO''), (''2Cor'', ''2CO''),
     (''Gal'', ''GAL''), (''Eph'', ''EPH''), (''Phil'', ''PHP''), (''Col'', ''COL''),
     (''1 Thess'', ''1TH''), (''1Thess'', ''1TH''),
     (''2 Thess'', ''2TH''), (''2Thess'', ''2TH''),
     (''1 Tim'', ''1TI''), (''1Tim'', ''1TI''),
     (''2 Tim'', ''2TI''),
     (''Titus'', ''TIT''), (''Phlm'', ''PHM''), (''Heb'', ''HEB''), (''Jas'', ''JAS''),
     (''1 Pet'', ''1PE''), (''1Pet'', ''1PE''),
     (''2 Pet'', ''2PE''), (''2Pet'', ''2PE''),
     (''1 John'', ''1JN''), (''1John'', ''1JN''),
     (''2 John'', ''2JN''),
     (''3 John'', ''3JN''),
     (''Jude'', ''JUD''), (''Rev'', ''REV'')]"

definition ABBR_MAP :: "string \<rightharpoonup> string" where
  "ABBR_MAP = map_of ABBR_MAP_items"

section \<open>Standardizing a citation\<close>

text \<open>The VerseID the script builds with \<^verbatim>\<open>f"{code} {chapter}:{verse}"\<close>.\<close>

definition verse_ref :: "string \<Rightarrow> string \<Rightarrow> string \<Rightarrow> string" where
  "verse_ref code chapter verse = code @ '' '' @ chapter @ '':'' @ verse"

text \<open>
  \<^verbatim>\<open>standardize_verse_ref(ref_string, local_abbr_map, known_canon_abbrs_set)\<close>. The
  debug counter only limits what is printed and is left out; \<open>None\<close> is Python's
  \<^verbatim>\<open>None\<close>.
\<close>

definition standardize_verse_ref ::
  "string \<Rightarrow> (string \<rightharpoonup> string) \<Rightarrow> string set \<Rightarrow> string option" where
  "standardize_verse_ref ref_string local_abbr_map known_canon_abbrs_set =
     (case verse_pattern_match ref_string of
        None \<Rightarrow> None
      | Some (g1, chapter, verse) \<Rightarrow>
          let book_part = strip g1;
              canon_abbr = local_abbr_map book_part
          in if truthy canon_abbr \<and> the canon_abbr \<in> known_canon_abbrs_set
             then Some (verse_ref (the canon_abbr) chapter verse)
             else let upper_book_part = upper book_part
                  in if book_part \<in> known_canon_abbrs_set
                     then Some (verse_ref book_part chapter verse)
                     else if upper_book_part \<in> known_canon_abbrs_set
                     then Some (verse_ref upper_book_part chapter verse)
                     else None)"

section \<open>The parsed documents\<close>

text \<open>
  An \<^verbatim>\<open>xml.etree.ElementTree.Element\<close>: tag, attributes, the text before the first
  child, the text after the closing tag, and the children. The parser drops comments
  and processing instructions, so every node is an element.
\<close>

datatype element =
  Element (el_tag: string) (el_attrib: "(string \<times> string) list")
          (el_text: "string option") (el_tail: "string option")
          (el_children: "element list")

text \<open>\<^verbatim>\<open>elem.get(key)\<close>.\<close>

definition elem_get :: "element \<Rightarrow> string \<Rightarrow> string option" where
  "elem_get e key = map_of (el_attrib e) key"

text \<open>\<^verbatim>\<open>elem.iter()\<close>: the element itself, then its descendants, in document order.\<close>

fun iter :: "element \<Rightarrow> element list" where
  "iter (Element t a x y cs) = Element t a x y cs # concat (map iter cs)"

text \<open>\<^verbatim>\<open>root.findall('.//book')\<close> and \<^verbatim>\<open>root.findall('./book')\<close>.\<close>

definition findall_descendants :: "string \<Rightarrow> element \<Rightarrow> element list" where
  "findall_descendants t root = filter (\<lambda>e. el_tag e = t) (concat (map iter (el_children root)))"

definition findall_children :: "string \<Rightarrow> element \<Rightarrow> element list" where
  "findall_children t root = filter (\<lambda>e. el_tag e = t) (el_children root)"

text \<open>The value of an optional string once \<open>truthy\<close> has been checked.\<close>

fun str_of :: "string option \<Rightarrow> string" where
  "str_of None = []"
| "str_of (Some s) = s"

section \<open>Step 1: book names\<close>

text \<open>
  \<^verbatim>\<open>book_code_to_name\<close> as an association list, the latest assignment first, so that
  \<open>map_of\<close> reads what the dictionary holds.
\<close>

definition read_book_names :: "element \<Rightarrow> (string \<times> string) list" where
  "read_book_names booknames_root =
     fold (\<lambda>book_elem names.
             let code = elem_get book_elem ''code''; short_name = elem_get book_elem ''short''
             in if truthy code \<and> truthy short_name
                then (str_of code, str_of short_name) # names else names)
          (findall_descendants ''book'' booknames_root) []"

section \<open>Step 2: the text extractor\<close>

record book_meta =
  book_name :: string
  book_abbr :: string
  chapters :: "int list"

text \<open>
  The module-level variables that step 2 reads and writes. A Python dictionary keeps its
  keys in the order of their first assignment, and \<^verbatim>\<open>json.dump\<close> writes them in that
  order: \<^verbatim>\<open>bible_text_dict\<close> is an association list with distinct keys, assigned with
  \<^const>\<open>AList.update\<close> and read with \<^const>\<open>map_of\<close>.
\<close>

record globals =
  bible_meta_list :: "book_meta list"
  bible_text_dict :: "(string \<times> string) list"
  book_order :: "string list"
  processed_book_count :: nat
  chapter_verse_counts :: "int list"
  last_verse_in_chapter :: int
  current_chapter_num :: int
  collecting_text_for_verse :: int
  verse_text_buffer :: string

text \<open>\<^verbatim>\<open>re.sub(r'\s+', ' ', s)\<close>.\<close>

function collapse_ws :: "string \<Rightarrow> string" where
  "collapse_ws [] = []"
| "collapse_ws (c # cs) =
     (if is_space c then CHR '' '' # collapse_ws (dropWhile is_space cs)
      else c # collapse_ws cs)"
  by pat_completeness auto
termination
  by (relation "measure length") (auto simp: length_dropWhile_le less_Suc_eq_le)

text \<open>
  Storing the collected verse: the key is built from the chapter and verse numbers, the
  value is the cleaned buffer, and nothing is stored when that is empty.
\<close>

definition flush :: "string \<Rightarrow> globals \<Rightarrow> globals" where
  "flush abbr g =
     (let verse_id = verse_ref abbr (str_int (current_chapter_num g))
                                    (str_int (collecting_text_for_verse g));
          cleaned_text = strip (collapse_ws (verse_text_buffer g))
      in if cleaned_text \<noteq> []
         then g\<lparr>bible_text_dict := AList.update verse_id cleaned_text (bible_text_dict g)\<rparr>
         else g)"

text \<open>\<^verbatim>\<open>verse_text_buffer += s.strip() + " "\<close>.\<close>

definition append_text :: "string \<Rightarrow> globals \<Rightarrow> globals" where
  "append_text s g = g\<lparr>verse_text_buffer := verse_text_buffer g @ strip s @ '' ''\<rparr>"

text \<open>
  One round of the \<^verbatim>\<open>while\<close> loop over \<^verbatim>\<open>nodes_to_process\<close>. In the \<^verbatim>\<open>v\<close> branch
  \<^verbatim>\<open>int(verse_num_str)\<close> is the first statement of the \<^verbatim>\<open>try\<close> block: when it raises,
  the rest of the block (the flush included) is skipped and the handler runs.
\<close>

definition process_inner_node :: "string \<Rightarrow> element \<Rightarrow> globals \<Rightarrow> globals" where
  "process_inner_node abbr inner_node g =
     (if el_tag inner_node = ''v'' then
        let g1 = (case py_int (elem_get inner_node ''id'') of
                    Some current_verse_num \<Rightarrow>
                      let g0 = (if collecting_text_for_verse g > 0 then flush abbr g else g)
                      in g0\<lparr>collecting_text_for_verse := current_verse_num,
                            verse_text_buffer := [],
                            last_verse_in_chapter :=
                              max (last_verse_in_chapter g0) current_verse_num\<rparr>
                  | None \<Rightarrow> g\<lparr>collecting_text_for_verse := 0\<rparr>)
        in if truthy (el_tail inner_node) \<and> collecting_text_for_verse g1 > 0
           then append_text (str_of (el_tail inner_node)) g1 else g1
      else if el_tag inner_node = ''ve'' then
        let g0 = (if collecting_text_for_verse g > 0 then flush abbr g else g)
        in g0\<lparr>collecting_text_for_verse := 0\<rparr>
      else if collecting_text_for_verse g > 0 then
        let current_text =
              (if truthy (el_text inner_node) \<and> el_tag inner_node = ''w''
               then strip (str_of (el_text inner_node)) else []);
            g1 = (if current_text \<noteq> []
                  then g\<lparr>verse_text_buffer := verse_text_buffer g @ current_text @ '' ''\<rparr>
                  else g)
        in if truthy (el_tail inner_node) \<and>
              el_tag inner_node \<in> set [''w'', ''char'', ''ref'', ''bk'', ''v'']
           then append_text (str_of (el_tail inner_node)) g1 else g1
      else g)"

text \<open>Closing the open chapter: its length is appended, 0 when no verse was counted.\<close>

definition close_chapter :: "globals \<Rightarrow> globals" where
  "close_chapter g =
     (if current_chapter_num g > 0 \<and> last_verse_in_chapter g > 0
      then g\<lparr>chapter_verse_counts := chapter_verse_counts g @ [last_verse_in_chapter g]\<rparr>
      else if current_chapter_num g > 0
      then g\<lparr>chapter_verse_counts := chapter_verse_counts g @ [0]\<rparr>
      else g)"

text \<open>
  The loop over the direct children of a book element. An invalid chapter id leaves the
  loop (\<^verbatim>\<open>break\<close>); any other child is walked with \<^verbatim>\<open>iter()\<close> while a chapter is open,
  starting with an empty buffer and no verse being collected.
\<close>

fun process_book_children :: "string \<Rightarrow> element list \<Rightarrow> globals \<Rightarrow> globals" where
  "process_book_children abbr [] g = g"
| "process_book_children abbr (book_child_node # rest) g =
     (if el_tag book_child_node = ''c'' then
        let g1 = close_chapter g
        in case py_int (elem_get book_child_node ''id'') of
             Some n \<Rightarrow>
               process_book_children abbr rest
                 (g1\<lparr>current_chapter_num := n, last_verse_in_chapter := 0\<rparr>)
           | None \<Rightarrow> g1\<lparr>current_chapter_num := 0\<rparr>
      else if current_chapter_num g > 0 then
        process_book_children abbr rest
          (fold (process_inner_node abbr) (iter book_child_node)
                (g\<lparr>verse_text_buffer := [], collecting_text_for_verse := 0\<rparr>))
      else process_book_children abbr rest g)"

text \<open>One round of the loop over the book elements.\<close>

definition process_book :: "(string \<times> string) list \<Rightarrow> element \<Rightarrow> globals \<Rightarrow> globals" where
  "process_book book_code_to_name book_element g =
     (let id = elem_get book_element ''id'' in
      if \<not> truthy id \<or> str_of id \<notin> PROTESTANT_CANON_CODES then g
      else
        let abbr = str_of id;
            current_book_name = (case map_of book_code_to_name abbr of
                                   Some n \<Rightarrow> n | None \<Rightarrow> abbr);
            g1 = g\<lparr>book_order := book_order g @ [abbr], chapter_verse_counts := [],
                   last_verse_in_chapter := 0, current_chapter_num := 0\<rparr>;
            g2 = close_chapter (process_book_children abbr (el_children book_element) g1)
        in if chapter_verse_counts g2 \<noteq> []
           then g2\<lparr>bible_meta_list := bible_meta_list g2 @
                       [\<lparr>book_name = current_book_name, book_abbr = abbr,
                         chapters = chapter_verse_counts g2\<rparr>],
                    processed_book_count := Suc (processed_book_count g2)\<rparr>
           else g2)"

definition initial_globals :: globals where
  "initial_globals =
     \<lparr>bible_meta_list = [], bible_text_dict = [], book_order = [],
      processed_book_count = 0, chapter_verse_counts = [], last_verse_in_chapter = 0,
      current_chapter_num = 0, collecting_text_for_verse = 0, verse_text_buffer = []\<rparr>"

definition process_books :: "(string \<times> string) list \<Rightarrow> element list \<Rightarrow> globals" where
  "process_books book_code_to_name book_elements =
     fold (process_book book_code_to_name) book_elements initial_globals"

section \<open>Step 3: the metadata in its final order\<close>

text \<open>
  \<^verbatim>\<open>[meta for book_code in book_order for meta in bible_meta_list
      if meta['book_abbr'] == book_code]\<close>
\<close>

definition final_meta_list :: "string list \<Rightarrow> book_meta list \<Rightarrow> book_meta list" where
  "final_meta_list order metas =
     concat (map (\<lambda>book_code. filter (\<lambda>meta. book_abbr meta = book_code) metas) order)"

section \<open>Steps 4 and 5: linking the cross references\<close>

text \<open>\<^verbatim>\<open>s.split(sep)\<close> for a one-character separator.\<close>

fun split_chr :: "char \<Rightarrow> string \<Rightarrow> string list" where
  "split_chr sep [] = [[]]"
| "split_chr sep (c # cs) =
     (if c = sep then [] # split_chr sep cs
      else case split_chr sep cs of
             [] \<Rightarrow> [[c]]
           | p # ps \<Rightarrow> (c # p) # ps)"

text \<open>\<^verbatim>\<open>refs.setdefault(k, set()).add(v)\<close>.\<close>

type_synonym refs_dict = "(string \<times> string set) list"

definition setdefault_add :: "string \<Rightarrow> string \<Rightarrow> refs_dict \<Rightarrow> refs_dict" where
  "setdefault_add k v refs =
     AList.update k (insert v (case map_of refs k of None \<Rightarrow> {} | Some s \<Rightarrow> s)) refs"

text \<open>
  One line of the cross-reference file. The counters of the script are only printed and
  are left out.
\<close>

definition process_line ::
  "string set \<Rightarrow> string set \<Rightarrow> string \<Rightarrow> refs_dict \<Rightarrow> refs_dict" where
  "process_line known_verses known_canon_abbrs_set line refs_intermediate =
     (if take 1 line = ''#'' \<or> strip line = [] then refs_intermediate
      else
        let parts = split_chr CHR 0x09 (strip line) in
        if length parts \<ge> 2 then
          let raw_a = parts ! 0; raw_b = parts ! 1;
              std_a = standardize_verse_ref raw_a ABBR_MAP known_canon_abbrs_set;
              std_b = standardize_verse_ref raw_b ABBR_MAP known_canon_abbrs_set
          in if truthy std_a \<and> truthy std_b \<and> std_a \<noteq> std_b then
               (if str_of std_a \<in> known_verses \<and> str_of std_b \<in> known_verses
                then setdefault_add (str_of std_b) (str_of std_a)
                       (setdefault_add (str_of std_a) (str_of std_b) refs_intermediate)
                else refs_intermediate)
             else refs_intermediate
        else refs_intermediate)"

text \<open>
  Step 4. \<open>None\<close> is the absent file: \<^verbatim>\<open>open\<close> raises \<^verbatim>\<open>FileNotFoundError\<close> before any
  line is read, the handler prints a warning, and \<^verbatim>\<open>refs_intermediate\<close>, assigned before
  the \<^verbatim>\<open>try\<close>, is still the empty dictionary.
\<close>

definition link_cross_refs ::
  "string set \<Rightarrow> string set \<Rightarrow> string list option \<Rightarrow> refs_dict" where
  "link_cross_refs known_verses known_canon_abbrs_set crossref_lines =
     (case crossref_lines of
        None \<Rightarrow> []
      | Some lines \<Rightarrow> fold (process_line known_verses known_canon_abbrs_set) lines [])"

text \<open>Step 5: \<^verbatim>\<open>{verse: sorted(list(refs_set)) for verse, refs_set in refs_intermediate.items()}\<close>.\<close>

definition final_cross_refs :: "refs_dict \<Rightarrow> (string \<times> string list) list" where
  "final_cross_refs refs_intermediate =
     map (\<lambda>(verse, refs_set). (verse, sorted_list_of_set refs_set)) refs_intermediate"

section \<open>The whole run\<close>

datatype error = FileNotFoundError | ParseError | ValueError

text \<open>
  A required XML file: absent, not well-formed, or parsed to its root. The
  cross-reference file is given by the lines that iterating over it yields, \<open>None\<close> when
  the file is absent.
\<close>

datatype xml_source = Missing | Malformed | Parsed element

record sources =
  booknames_source :: xml_source
  usfx_source :: xml_source
  crossref_source :: "string list option"

text \<open>What is written to the three artifacts.\<close>

record outputs =
  meta_artifact :: "book_meta list"
  text_artifact :: "(string \<times> string) list"
  refs_artifact :: "(string \<times> string list) list"

definition load_xml :: "xml_source \<Rightarrow> error + element" where
  "load_xml src = (case src of Missing \<Rightarrow> Inl FileNotFoundError
                   | Malformed \<Rightarrow> Inl ParseError | Parsed root \<Rightarrow> Inr root)"

text \<open>Step 1 with its fatal exits.\<close>

definition step1 :: "sources \<Rightarrow> error + (string \<times> string) list" where
  "step1 src =
     (case load_xml (booknames_source src) of
        Inl e \<Rightarrow> Inl e
      | Inr booknames_root \<Rightarrow>
          let book_code_to_name = read_book_names booknames_root
          in if book_code_to_name = [] then Inl ValueError else Inr book_code_to_name)"

text \<open>
  The book elements of the scripture document: \<^verbatim>\<open>.//book\<close>, and \<^verbatim>\<open>./book\<close> when that
  finds none.
\<close>

definition find_book_elements :: "element \<Rightarrow> element list" where
  "find_book_elements root =
     (let found = findall_descendants ''book'' root
      in if found = [] then findall_children ''book'' root else found)"

text \<open>Step 2 with its fatal exits; the result holds the variables after the book loop.\<close>

definition step2 :: "sources \<Rightarrow> error + globals" where
  "step2 src =
     (case step1 src of
        Inl e \<Rightarrow> Inl e
      | Inr book_code_to_name \<Rightarrow>
          (case load_xml (usfx_source src) of
             Inl e \<Rightarrow> Inl e
           | Inr root \<Rightarrow>
               let book_elements = find_book_elements root
               in if book_elements = [] then Inl ValueError
                  else let g = process_books book_code_to_name book_elements
                       in if processed_book_count g = 0 then Inl ValueError else Inr g))"

text \<open>\<^verbatim>\<open>known_verses\<close> and \<^verbatim>\<open>known_canon_abbrs_set\<close> as step 4 computes them.\<close>

definition known_verses_of :: "globals \<Rightarrow> string set" where
  "known_verses_of g = set (map fst (bible_text_dict g))"

definition known_canon_abbrs_set_of :: "globals \<Rightarrow> string set" where
  "known_canon_abbrs_set_of g = set (book_order g)"

definition main :: "sources \<Rightarrow> error + outputs" where
  "main src =
     (case step2 src of
        Inl e \<Rightarrow> Inl e
      | Inr g \<Rightarrow>
          Inr \<lparr>meta_artifact = final_meta_list (book_order g) (bible_meta_list g),
               text_artifact = bible_text_dict g,
               refs_artifact =
                 final_cross_refs
                   (link_cross_refs (known_verses_of g) (known_canon_abbrs_set_of g)
                      (crossref_source src))\<rparr>)"

section \<open>Sample runs\<close>

text \<open>
  Small inputs on which the model is evaluated. The first is the end-to-end scenario of
  the specification: one book \<^verbatim>\<open>GEN\<close>, chapter 1 with verses 1 and 2, and the
  cross-reference line \<^verbatim>\<open>Gen.1.1<TAB>Gen.1.2\<close>. In the scripture documents the words of
  a verse follow its \<^verbatim>\<open>v\<close> marker as the marker's tail.
\<close>

definition booknames_xml :: element where
  "booknames_xml = Element ''BookNames'' [] None None
     [Element ''book'' [(''code'', ''GEN''), (''short'', ''Genesis'')] None None [],
      Element ''book'' [(''code'', ''EXO''), (''short'', ''Exodus'')] None None []]"

definition gen_book :: element where
  "gen_book = Element ''book'' [(''id'', ''GEN'')] None None
        [Element ''c'' [(''id'', ''1'')] None None [],
         Element ''p'' [] None None
           [Element ''v'' [(''id'', ''1'')] None (Some ''In the beginning'') [],
            Element ''ve'' [] None None [],
            Element ''v'' [(''id'', ''2'')] None (Some ''And the earth'') [],
            Element ''ve'' [] None None []]]"

definition exo_book :: element where
  "exo_book = Element ''book'' [(''id'', ''EXO'')] None None
        [Element ''c'' [(''id'', ''1'')] None None [],
         Element ''p'' [] None None
           [Element ''v'' [(''id'', ''1'')] None (Some ''Now these are the names'') [],
            Element ''ve'' [] None None []]]"

definition scenario_usfx :: element where
  "scenario_usfx = Element ''usfx'' [] None None [gen_book]"

definition scenario_sources :: sources where
  "scenario_sources =
     \<lparr>booknames_source = Parsed booknames_xml,
      usfx_source = Parsed scenario_usfx,
      crossref_source = Some [''Gen.1.1'' @ [CHR 0x09] @ ''Gen.1.2'' @ [CHR 0x0A]]\<rparr>"

text \<open>A document that holds Exodus before Genesis.\<close>

definition exo_gen_usfx :: element where
  "exo_gen_usfx = Element ''usfx'' [] None None [exo_book, gen_book]"

definition exo_gen_sources :: sources where
  "exo_gen_sources =
     \<lparr>booknames_source = Parsed booknames_xml,
      usfx_source = Parsed exo_gen_usfx,
      crossref_source = None\<rparr>"

text \<open>A verse marker with an id that is no number, met while verse 1 is collected.\<close>

definition bad_verse_id_book :: element where
  "bad_verse_id_book = Element ''book'' [(''id'', ''GEN'')] None None
        [Element ''c'' [(''id'', ''1'')] None None [],
         Element ''p'' [] None None
           [Element ''v'' [(''id'', ''1'')] None (Some ''In the beginning'') [],
            Element ''v'' [(''id'', ''2a'')] None (Some ''And the earth'') [],
            Element ''ve'' [] None None []]]"

definition bad_verse_id_sources :: sources where
  "bad_verse_id_sources =
     \<lparr>booknames_source = Parsed booknames_xml,
      usfx_source = Parsed (Element ''usfx'' [] None None [bad_verse_id_book]),
      crossref_source = None\<rparr>"

text \<open>A verse with a character run (\<^verbatim>\<open>char\<close>) and a word run (\<^verbatim>\<open>w\<close>).\<close>

definition char_run_book :: element where
  "char_run_book = Element ''book'' [(''id'', ''GEN'')] None None
        [Element ''c'' [(''id'', ''2'')] None None [],
         Element ''p'' [] None None
           [Element ''v'' [(''id'', ''4'')] None (Some ''in the day that'') [],
            Element ''char'' [] (Some ''Yahweh'') (Some ''God made'') [],
            Element ''w'' [] (Some ''the earth'') None [],
            Element ''ve'' [] None None []]]"

definition char_run_sources :: sources where
  "char_run_sources =
     \<lparr>booknames_source = Parsed booknames_xml,
      usfx_source = Parsed (Element ''usfx'' [] None None [char_run_book]),
      crossref_source = None\<rparr>"


definition scenario_globals :: globals where
  "scenario_globals =
     \<lparr>bible_meta_list = [\<lparr>book_name = ''Genesis'', book_abbr = ''GEN'', chapters = [2]\<rparr>],
      bible_text_dict = [(''GEN 1:1'', ''In the beginning''), (''GEN 1:2'', ''And the earth'')],
      book_order = [''GEN''], processed_book_count = 1,
      chapter_verse_counts = [2], last_verse_in_chapter = 2,
      current_chapter_num = 1, collecting_text_for_verse = 0,
      verse_text_buffer = ''And the earth ''\<rparr>"

definition scenario_outputs :: outputs where
  "scenario_outputs =
     \<lparr>meta_artifact = [\<lparr>book_name = ''Genesis'', book_abbr = ''GEN'', chapters = [2]\<rparr>],
      text_artifact = [(''GEN 1:1'', ''In the beginning''), (''GEN 1:2'', ''And the earth'')],
      refs_artifact = [(''GEN 1:1'', [''GEN 1:2'']), (''GEN 1:2'', [''GEN 1:1''])]\<rparr>"


definition exo_gen_outputs :: outputs where
  "exo_gen_outputs =
     \<lparr>meta_artifact = [\<lparr>book_name = ''Exodus'', book_abbr = ''EXO'', chapters = [1]\<rparr>,
                       \<lparr>book_name = ''Genesis'', book_abbr = ''GEN'', chapters = [2]\<rparr>],
      text_artifact = [(''EXO 1:1'', ''Now these are the names''),
                       (''GEN 1:1'', ''In the beginning''), (''GEN 1:2'', ''And the earth'')],
      refs_artifact = []\<rparr>"

definition bad_verse_id_outputs :: outputs where
  "bad_verse_id_outputs =
     \<lparr>meta_artifact = [\<lparr>book_name = ''Genesis'', book_abbr = ''GEN'', chapters = [1]\<rparr>],
      text_artifact = [], refs_artifact = []\<rparr>"

definition char_run_outputs :: outputs where
  "char_run_outputs =
     \<lparr>meta_artifact = [\<lparr>book_name = ''Genesis'', book_abbr = ''GEN'', chapters = [4]\<rparr>],
      text_artifact = [(''GEN 2:4'', ''in the day that God made the earth'')],
      refs_artifact = []\<rparr>"

text \<open>
  The variables when the second marker of \<open>bad_verse_id_book\<close> is reached: verse 1 of
  chapter 1 is being collected and its words are in the buffer.
\<close>

definition collecting_globals :: globals where
  "collecting_globals =
     \<lparr>bible_meta_list = [], bible_text_dict = [], book_order = [''GEN''],
      processed_book_count = 0, chapter_verse_counts = [], last_verse_in_chapter = 1,
      current_chapter_num = 1, collecting_text_for_verse = 1,
      verse_text_buffer = ''In the beginning ''\<rparr>"

definition bad_verse_marker :: element where
  "bad_verse_marker = Element ''v'' [(''id'', ''2a'')] None (Some ''And the earth'') []"

definition good_verse_marker :: element where
  "good_verse_marker = Element ''v'' [(''id'', ''2'')] None (Some ''And the earth'') []"

definition verse_end_marker :: element where
  "verse_end_marker = Element ''ve'' [] None None []"

definition char_run_node :: element where
  "char_run_node = Element ''char'' [] (Some ''Yahweh'') (Some ''God made'') []"

definition word_run_node :: element where
  "word_run_node = Element ''w'' [] (Some ''the earth'') None []"

text \<open>The scenario with a citation whose chapter is written with a leading zero.\<close>

definition leading_zero_sources :: sources where
  "leading_zero_sources =
     scenario_sources\<lparr>crossref_source :=
        Some [''Gen.01.1'' @ [CHR 0x09] @ ''Gen.1.2'' @ [CHR 0x0A]]\<rparr>"

section \<open>Notions used in the properties\<close>

text \<open>
  The position of a code in the reading order Genesis to Revelation, and what it means
  for a sequence of codes to follow that order.
\<close>

definition canon_index :: "string \<Rightarrow> nat" where
  "canon_index code = length (takeWhile (\<lambda>c. c \<noteq> code) canon_codes_listed)"

definition in_canonical_order :: "string list \<Rightarrow> bool" where
  "in_canonical_order codes = sorted (map canon_index codes)"

text \<open>
  The codes of the book elements that pass the canon filter of \<open>process_book\<close>, in the
  order of the elements.
\<close>

definition admitted_codes :: "element list \<Rightarrow> string list" where
  "admitted_codes book_elements =
     [str_of (elem_get b ''id''). b \<leftarrow> book_elements,
        truthy (elem_get b ''id'') \<and> str_of (elem_get b ''id'') \<in> PROTESTANT_CANON_CODES]"

text \<open>
  The invariant of the linking loop over \<^verbatim>\<open>refs_intermediate\<close>, for the set \<open>V\<close> of known
  verses: keys are distinct; every adjacency set is finite and not empty, lies within
  \<open>V\<close> together with its key, does not hold its key, and each of its members has the key
  in its own set.
\<close>

definition refs_inv :: "string set \<Rightarrow> refs_dict \<Rightarrow> bool" where
  "refs_inv V r \<longleftrightarrow>
     distinct (map fst r) \<and>
     (\<forall>a s. map_of r a = Some s \<longrightarrow>
        finite s \<and> s \<noteq> {} \<and> a \<in> V \<and> a \<notin> s \<and> s \<subseteq> V \<and>
        (\<forall>b\<in>s. \<exists>t. map_of r b = Some t \<and> a \<in> t))"

text \<open>
  The invariant of the extractor over \<^verbatim>\<open>bible_text_dict\<close>: every key is written from a
  canonical code and two positive integers.
\<close>

definition text_keys_ok :: "globals \<Rightarrow> bool" where
  "text_keys_ok g \<longleftrightarrow>
     (\<forall>k \<in> fst ` set (bible_text_dict g).
        \<exists>abbr ch v. abbr \<in> PROTESTANT_CANON_CODES \<and> 0 < ch \<and> 0 < v \<and>
                    k = verse_ref abbr (str_int ch) (str_int v))"

section \<open>Standardization on the examples of the specification\<close>

lemma match_Gen_1_1: "verse_pattern_match ''Gen.1.1'' = Some (''Gen'', ''1'', ''1'')"
  by code_simp

lemma match_1_Cor_3_16: "verse_pattern_match ''1 Cor.3.16'' = Some (''1 Cor'', ''3'', ''16'')"
  by code_simp

lemma match_Rom_8_28_30: "verse_pattern_match ''Rom 8.28-30'' = Some (''Rom'', ''8'', ''28'')"
  by code_simp

lemma match_Xyz_1_1: "verse_pattern_match ''Xyz.1.1'' = Some (''Xyz'', ''1'', ''1'')"
  by code_simp

lemma strip_book_parts:
  "strip ''Gen'' = ''Gen''" "strip ''1 Cor'' = ''1 Cor''" "strip ''Rom'' = ''Rom''"
  "strip ''Xyz'' = ''Xyz''"
  by code_simp+

lemma ABBR_MAP_book_parts:
  "ABBR_MAP ''Gen'' = Some ''GEN''" "ABBR_MAP ''1 Cor'' = Some ''1CO''"
  "ABBR_MAP ''Rom'' = Some ''ROM''" "ABBR_MAP ''Xyz'' = None"
  by code_simp+

lemma Xyz_not_canonical:
  "''Xyz'' \<notin> PROTESTANT_CANON_CODES" "upper ''Xyz'' \<notin> PROTESTANT_CANON_CODES"
  by code_simp+

text \<open>
  Claim C5. With a known-canon set \<open>K\<close> of canonical codes that contains \<^verbatim>\<open>GEN\<close>, \<^verbatim>\<open>1CO\<close>
  and \<^verbatim>\<open>ROM\<close>, standardization maps \<^verbatim>\<open>Gen.1.1\<close> to \<^verbatim>\<open>GEN 1:1\<close>, \<^verbatim>\<open>1 Cor.3.16\<close> to
  \<^verbatim>\<open>1CO 3:16\<close> and \<^verbatim>\<open>Rom 8.28-30\<close> to \<^verbatim>\<open>ROM 8:28\<close>, and yields no VerseID for \<^verbatim>\<open>Xyz.1.1\<close>.
\<close>

theorem standardize_examples:
  assumes "{''GEN'', ''1CO'', ''ROM''} \<subseteq> K" and "K \<subseteq> PROTESTANT_CANON_CODES"
  shows "standardize_verse_ref ''Gen.1.1'' ABBR_MAP K = Some ''GEN 1:1'' \<and>
         standardize_verse_ref ''1 Cor.3.16'' ABBR_MAP K = Some ''1CO 3:16'' \<and>
         standardize_verse_ref ''Rom 8.28-30'' ABBR_MAP K = Some ''ROM 8:28'' \<and>
         standardize_verse_ref ''Xyz.1.1'' ABBR_MAP K = None"
proof -
  from assms(2) Xyz_not_canonical have "''Xyz'' \<notin> K" "upper ''Xyz'' \<notin> K" by blast+
  with assms(1) show ?thesis
    by (simp add: standardize_verse_ref_def match_Gen_1_1 match_1_Cor_3_16 match_Rom_8_28_30
          match_Xyz_1_1 strip_book_parts ABBR_MAP_book_parts verse_ref_def)
qed

theorem standardize_examples_witness:
  "{''GEN'', ''1CO'', ''ROM''} \<subseteq> PROTESTANT_CANON_CODES \<and>
   PROTESTANT_CANON_CODES \<subseteq> PROTESTANT_CANON_CODES \<and>
   standardize_verse_ref ''Gen.1.1'' ABBR_MAP PROTESTANT_CANON_CODES = Some ''GEN 1:1'' \<and>
   standardize_verse_ref ''1 Cor.3.16'' ABBR_MAP PROTESTANT_CANON_CODES = Some ''1CO 3:16'' \<and>
   standardize_verse_ref ''Rom 8.28-30'' ABBR_MAP PROTESTANT_CANON_CODES = Some ''ROM 8:28'' \<and>
   standardize_verse_ref ''Xyz.1.1'' ABBR_MAP PROTESTANT_CANON_CODES = None"
proof -
  have h: "{''GEN'', ''1CO'', ''ROM''} \<subseteq> PROTESTANT_CANON_CODES"
    by (simp add: PROTESTANT_CANON_CODES_def canon_codes_listed_def)
  show ?thesis using h standardize_examples [OF h subset_refl] by simp
qed

section \<open>The cross-reference graph\<close>

lemma map_of_setdefault_add:
  "map_of (setdefault_add k v r) =
     (map_of r)(k \<mapsto> insert v (case map_of r k of None \<Rightarrow> {} | Some s \<Rightarrow> s))"
  by (simp add: setdefault_add_def update_conv')

lemma distinct_setdefault_add:
  "distinct (map fst r) \<Longrightarrow> distinct (map fst (setdefault_add k v r))"
  by (simp add: setdefault_add_def distinct_update)

lemma main_scenario: "main scenario_sources = Inr scenario_outputs"
  by code_simp

lemma refs_inv_empty: "refs_inv V []"
  by (simp add: refs_inv_def)

lemma refs_inv_link:
  assumes inv: "refs_inv V r" and ab: "a \<noteq> b" and a: "a \<in> V" and b: "b \<in> V"
  shows "refs_inv V (setdefault_add b a (setdefault_add a b r))"
proof -
  let ?m = "map_of r"
  let ?r' = "setdefault_add b a (setdefault_add a b r)"
  have m': "map_of ?r' =
      (?m(a \<mapsto> insert b (case ?m a of None \<Rightarrow> {} | Some s \<Rightarrow> s)))
         (b \<mapsto> insert a (case ?m b of None \<Rightarrow> {} | Some s \<Rightarrow> s))"
    using ab by (simp add: map_of_setdefault_add)
  have d: "distinct (map fst ?r')"
    using inv by (simp add: refs_inv_def distinct_setdefault_add)
  have old: "\<And>x s. ?m x = Some s \<Longrightarrow>
        finite s \<and> s \<noteq> {} \<and> x \<in> V \<and> x \<notin> s \<and> s \<subseteq> V \<and>
        (\<forall>y\<in>s. \<exists>t. ?m y = Some t \<and> x \<in> t)"
    using inv unfolding refs_inv_def by blast
  have "\<And>x s. map_of ?r' x = Some s \<Longrightarrow>
        finite s \<and> s \<noteq> {} \<and> x \<in> V \<and> x \<notin> s \<and> s \<subseteq> V \<and>
        (\<forall>y\<in>s. \<exists>t. map_of ?r' y = Some t \<and> x \<in> t)"
  proof -
    fix x s assume xs: "map_of ?r' x = Some s"
    show "finite s \<and> s \<noteq> {} \<and> x \<in> V \<and> x \<notin> s \<and> s \<subseteq> V \<and>
        (\<forall>y\<in>s. \<exists>t. map_of ?r' y = Some t \<and> x \<in> t)"
    proof (cases "x = b")
      case True
      with xs m' have s: "s = insert a (case ?m b of None \<Rightarrow> {} | Some s \<Rightarrow> s)" by simp
      show ?thesis
      proof (cases "?m b")
        case None
        with s True ab a b m' show ?thesis by simp
      next
        case (Some t)
        from old[OF Some] s Some True ab a b m' show ?thesis
          by (auto split: option.splits)
      qed
    next
      case xb: False
      show ?thesis
      proof (cases "x = a")
        case True
        with xs m' xb have s: "s = insert b (case ?m a of None \<Rightarrow> {} | Some s \<Rightarrow> s)" by simp
        show ?thesis
        proof (cases "?m a")
          case None
          with s True ab a b m' show ?thesis by simp
        next
          case (Some t)
          from old[OF Some] s Some True ab a b m' show ?thesis
            by (auto split: option.splits)
        qed
      next
        case False
        with xs m' xb have "?m x = Some s" by simp
        from old[OF this] False xb m' show ?thesis
          by (auto split: option.splits)
      qed
    qed
  qed
  with d show ?thesis unfolding refs_inv_def by blast
qed

lemma process_line_cases:
  "process_line V K line r = r \<or>
   (\<exists>a b. a \<noteq> b \<and> a \<in> V \<and> b \<in> V \<and>
          process_line V K line r = setdefault_add b a (setdefault_add a b r))"
proof -
  let ?parts = "split_chr CHR 0x09 (strip line)"
  let ?sa = "standardize_verse_ref (?parts ! 0) ABBR_MAP K"
  let ?sb = "standardize_verse_ref (?parts ! 1) ABBR_MAP K"
  show ?thesis
  proof (cases "process_line V K line r = r")
    case True then show ?thesis by simp
  next
    case False
    then have c: "truthy ?sa" "truthy ?sb" "?sa \<noteq> ?sb" "str_of ?sa \<in> V" "str_of ?sb \<in> V"
      and e: "process_line V K line r = setdefault_add (str_of ?sb) (str_of ?sa) (setdefault_add (str_of ?sa) (str_of ?sb) r)"
      by (auto simp: process_line_def Let_def split: if_splits)
    from c(1,2,3) have "str_of ?sa \<noteq> str_of ?sb"
      by (cases ?sa; cases ?sb) auto
    with c e show ?thesis by blast
  qed
qed

lemma refs_inv_process_line: "refs_inv V r \<Longrightarrow> refs_inv V (process_line V K line r)"
  using process_line_cases[of V K line r] refs_inv_link[of V r] by auto

lemma refs_inv_fold:
  "refs_inv V r \<Longrightarrow> refs_inv V (fold (process_line V K) lines r)"
  by (induction lines arbitrary: r) (auto simp: refs_inv_process_line)

lemma refs_inv_link_cross_refs: "refs_inv V (link_cross_refs V K src)"
  by (cases src) (auto simp: link_cross_refs_def refs_inv_empty refs_inv_fold)

lemma final_cross_refs_entry:
  "(a, bs) \<in> set (final_cross_refs r) \<longleftrightarrow> (\<exists>s. (a, s) \<in> set r \<and> bs = sorted_list_of_set s)"
  by (auto simp: final_cross_refs_def)

lemma refs_inv_entry:
  assumes "refs_inv V r" and "(a, s) \<in> set r"
  shows "finite s \<and> s \<noteq> {} \<and> a \<in> V \<and> a \<notin> s \<and> s \<subseteq> V \<and>
        (\<forall>b\<in>s. \<exists>t. (b, t) \<in> set r \<and> a \<in> t)"
proof -
  from assms have m: "map_of r a = Some s" by (simp add: refs_inv_def)
  with assms(1) have *: "finite s \<and> s \<noteq> {} \<and> a \<in> V \<and> a \<notin> s \<and> s \<subseteq> V \<and>
        (\<forall>b\<in>s. \<exists>t. map_of r b = Some t \<and> a \<in> t)" unfolding refs_inv_def by blast
  then show ?thesis by (blast dest: map_of_SomeD)
qed

lemma main_refs:
  assumes "main src = Inr out"
  obtains g where "step2 src = Inr g" 
    and "refs_artifact out = final_cross_refs (link_cross_refs (known_verses_of g) (known_canon_abbrs_set_of g) (crossref_source src))"
    and "text_artifact out = bible_text_dict g"
    and "meta_artifact out = final_meta_list (book_order g) (bible_meta_list g)"
  using assms by (auto simp: main_def split: sum.splits)

text \<open>
  Claim C6. The graph written to the cross-reference artifact is symmetric: whenever
  \<open>b\<close> stands in the adjacency list of a key \<open>a\<close>, \<open>b\<close> is a key too and \<open>a\<close> stands in
  its list.
\<close>

theorem cross_refs_symmetric:
  assumes "main src = Inr out" and "(a, bs) \<in> set (refs_artifact out)" and "b \<in> set bs"
  shows "\<exists>as. (b, as) \<in> set (refs_artifact out) \<and> a \<in> set as"
proof -
  from assms(1) obtain g where
    r: "refs_artifact out = final_cross_refs (link_cross_refs (known_verses_of g) (known_canon_abbrs_set_of g) (crossref_source src))"
    by (rule main_refs)
  let ?r = "link_cross_refs (known_verses_of g) (known_canon_abbrs_set_of g) (crossref_source src)"
  have inv: "refs_inv (known_verses_of g) ?r" by (rule refs_inv_link_cross_refs)
  from assms(2) r obtain s where s: "(a, s) \<in> set ?r" "bs = sorted_list_of_set s"
    by (auto simp: final_cross_refs_entry)
  from refs_inv_entry[OF inv s(1)] s(2) assms(3) obtain t where t: "(b, t) \<in> set ?r" "a \<in> t"
    by auto
  from refs_inv_entry[OF inv t(1)] have "finite t" by simp
  with t r show ?thesis
    by (auto simp: final_cross_refs_entry intro!: exI[of _ "sorted_list_of_set t"])
qed


theorem cross_refs_symmetric_witness:
  "main scenario_sources = Inr scenario_outputs \<and>
   (''GEN 1:1'', [''GEN 1:2'']) \<in> set (refs_artifact scenario_outputs) \<and>
   ''GEN 1:2'' \<in> set [''GEN 1:2''] \<and>
   (\<exists>as. (''GEN 1:2'', as) \<in> set (refs_artifact scenario_outputs) \<and> ''GEN 1:1'' \<in> set as)"
proof -
  have h1: "main scenario_sources = Inr scenario_outputs" by (rule main_scenario)
  have h2: "(''GEN 1:1'', [''GEN 1:2'']) \<in> set (refs_artifact scenario_outputs)"
    by (simp add: scenario_outputs_def)
  have h3: "''GEN 1:2'' \<in> set [''GEN 1:2'']" by simp
  from cross_refs_symmetric [OF h1 h2 h3] h1 h2 h3 show ?thesis by blast
qed

lemma main_refs_inv:
  assumes "main src = Inr out" and "(a, bs) \<in> set (refs_artifact out)"
  obtains s where "bs = sorted_list_of_set s" and "finite s" and "s \<noteq> {}"
    and "a \<in> fst ` set (text_artifact out)" and "a \<notin> s"
    and "s \<subseteq> fst ` set (text_artifact out)"
proof -
  from assms(1) obtain g where
    r: "refs_artifact out = final_cross_refs (link_cross_refs (known_verses_of g) (known_canon_abbrs_set_of g) (crossref_source src))"
    and t: "text_artifact out = bible_text_dict g"
    by (rule main_refs)
  let ?r = "link_cross_refs (known_verses_of g) (known_canon_abbrs_set_of g) (crossref_source src)"
  have inv: "refs_inv (known_verses_of g) ?r" by (rule refs_inv_link_cross_refs)
  from assms(2) r obtain s where s: "(a, s) \<in> set ?r" "bs = sorted_list_of_set s"
    by (auto simp: final_cross_refs_entry)
  from refs_inv_entry[OF inv s(1)] s(2) t that show thesis
    by (simp add: known_verses_of_def)
qed

text \<open>
  Claim C7. In the graph written to the cross-reference artifact every key and every
  member of an adjacency list is a key of the verse text; no list holds its own key;
  every list is sorted and free of duplicates.
\<close>

theorem cross_refs_valid:
  assumes "main src = Inr out" and "(a, bs) \<in> set (refs_artifact out)"
  shows "a \<in> fst ` set (text_artifact out) \<and> set bs \<subseteq> fst ` set (text_artifact out) \<and>
         a \<notin> set bs \<and> sorted bs \<and> distinct bs"
proof -
  from assms obtain s where "bs = sorted_list_of_set s" "finite s"
    "a \<in> fst ` set (text_artifact out)" "a \<notin> s" "s \<subseteq> fst ` set (text_artifact out)"
    by (rule main_refs_inv)
  then show ?thesis by simp
qed

theorem cross_refs_valid_witness:
  "main scenario_sources = Inr scenario_outputs \<and>
   (''GEN 1:1'', [''GEN 1:2'']) \<in> set (refs_artifact scenario_outputs) \<and>
   ''GEN 1:1'' \<in> fst ` set (text_artifact scenario_outputs) \<and>
   set [''GEN 1:2''] \<subseteq> fst ` set (text_artifact scenario_outputs) \<and>
   ''GEN 1:1'' \<notin> set [''GEN 1:2''] \<and> sorted [''GEN 1:2''] \<and> distinct [''GEN 1:2'']"
proof -
  have h1: "main scenario_sources = Inr scenario_outputs" by (rule main_scenario)
  have h2: "(''GEN 1:1'', [''GEN 1:2'']) \<in> set (refs_artifact scenario_outputs)"
    by (simp add: scenario_outputs_def)
  from cross_refs_valid [OF h1 h2] h1 h2 show ?thesis by blast
qed

text \<open>
  Claim C10. No key of the graph written to the cross-reference artifact has an empty
  adjacency list.
\<close>

theorem cross_refs_nonempty:
  assumes "main src = Inr out" and "(a, bs) \<in> set (refs_artifact out)"
  shows "bs \<noteq> []"
proof -
  from assms obtain s where "bs = sorted_list_of_set s" "finite s" "s \<noteq> {}"
    by (rule main_refs_inv)
  then show ?thesis by auto
qed

theorem cross_refs_nonempty_witness:
  "main scenario_sources = Inr scenario_outputs \<and>
   (''GEN 1:2'', [''GEN 1:1'']) \<in> set (refs_artifact scenario_outputs) \<and>
   [''GEN 1:1''] \<noteq> []"
proof -
  have h1: "main scenario_sources = Inr scenario_outputs" by (rule main_scenario)
  have h2: "(''GEN 1:2'', [''GEN 1:1'']) \<in> set (refs_artifact scenario_outputs)"
    by (simp add: scenario_outputs_def)
  from cross_refs_nonempty [OF h1 h2] h1 h2 show ?thesis by blast
qed

text \<open>
  Claim C8. When the cross-reference file is absent and steps 1 to 3 have completed,
  the run completes as well: it writes the metadata and the verse text of step 2 and an
  empty graph.
\<close>

theorem missing_crossref_file:
  assumes "crossref_source src = None" and "step2 src = Inr g"
  shows "main src = Inr \<lparr>meta_artifact = final_meta_list (book_order g) (bible_meta_list g),
                         text_artifact = bible_text_dict g, refs_artifact = []\<rparr>"
  using assms by (simp add: main_def link_cross_refs_def final_cross_refs_def)

theorem missing_crossref_file_witness:
  "crossref_source (scenario_sources\<lparr>crossref_source := None\<rparr>) = None \<and>
   step2 (scenario_sources\<lparr>crossref_source := None\<rparr>) = Inr scenario_globals \<and>
   main (scenario_sources\<lparr>crossref_source := None\<rparr>) =
     Inr \<lparr>meta_artifact = final_meta_list (book_order scenario_globals) (bible_meta_list scenario_globals),
          text_artifact = bible_text_dict scenario_globals, refs_artifact = []\<rparr>"
proof -
  have h1: "crossref_source (scenario_sources\<lparr>crossref_source := None\<rparr>) = None" by simp
  have h2: "step2 (scenario_sources\<lparr>crossref_source := None\<rparr>) = Inr scenario_globals"
    by code_simp
  from missing_crossref_file [OF h1 h2] h1 h2 show ?thesis by blast
qed


section \<open>The book loop and the order of the metadata\<close>

subsection \<open>What the loops of step 2 leave unchanged\<close>

lemma flush_frame:
  "book_order (flush abbr g) = book_order g"
  "bible_meta_list (flush abbr g) = bible_meta_list g"
  "processed_book_count (flush abbr g) = processed_book_count g"
  "current_chapter_num (flush abbr g) = current_chapter_num g"
  "collecting_text_for_verse (flush abbr g) = collecting_text_for_verse g"
  "verse_text_buffer (flush abbr g) = verse_text_buffer g"
  "last_verse_in_chapter (flush abbr g) = last_verse_in_chapter g"
  by (simp_all add: flush_def Let_def)

lemma process_inner_node_frame:
  "book_order (process_inner_node abbr n g) = book_order g"
  "bible_meta_list (process_inner_node abbr n g) = bible_meta_list g"
  "processed_book_count (process_inner_node abbr n g) = processed_book_count g"
  "current_chapter_num (process_inner_node abbr n g) = current_chapter_num g"
  by (simp_all add: process_inner_node_def append_text_def flush_frame Let_def split: option.splits)

lemma fold_inner_frame:
  "book_order (fold (process_inner_node abbr) ns g) = book_order g \<and>
   bible_meta_list (fold (process_inner_node abbr) ns g) = bible_meta_list g \<and>
   processed_book_count (fold (process_inner_node abbr) ns g) = processed_book_count g \<and>
   current_chapter_num (fold (process_inner_node abbr) ns g) = current_chapter_num g"
  by (induction ns arbitrary: g) (simp_all add: process_inner_node_frame)

lemma close_chapter_frame:
  "book_order (close_chapter g) = book_order g"
  "bible_meta_list (close_chapter g) = bible_meta_list g"
  "processed_book_count (close_chapter g) = processed_book_count g"
  "bible_text_dict (close_chapter g) = bible_text_dict g"
  by (simp_all add: close_chapter_def)

lemma process_book_children_frame:
  "book_order (process_book_children abbr ns g) = book_order g \<and>
   bible_meta_list (process_book_children abbr ns g) = bible_meta_list g \<and>
   processed_book_count (process_book_children abbr ns g) = processed_book_count g"
proof (induction abbr ns g rule: process_book_children.induct)
  case (1 abbr g)
  then show ?case by simp
next
  case (2 abbr n rest g)
  then show ?case
    by (simp add: Let_def close_chapter_frame fold_inner_frame split: option.splits)
qed

subsection \<open>Book order and metadata after the book loop\<close>

lemma process_book_order:
  "book_order (process_book names b g) = book_order g @ admitted_codes [b]"
  by (simp add: process_book_def admitted_codes_def Let_def close_chapter_frame
        process_book_children_frame)

lemma process_book_meta:
  "\<exists>ms. bible_meta_list (process_book names b g) = bible_meta_list g @ ms \<and>
        subseq (map book_abbr ms) (admitted_codes [b])"
  by (simp add: process_book_def admitted_codes_def Let_def close_chapter_frame
        process_book_children_frame)

lemma admitted_codes_Cons: "admitted_codes (b # bs) = admitted_codes [b] @ admitted_codes bs"
  by (simp add: admitted_codes_def)

lemma fold_process_book_order:
  "book_order (fold (process_book names) bs g) = book_order g @ admitted_codes bs"
proof (induction bs arbitrary: g)
  case Nil
  then show ?case by (simp add: admitted_codes_def)
next
  case (Cons b bs)
  then show ?case by (simp add: process_book_order admitted_codes_Cons[of b bs])
qed

lemma fold_process_book_meta:
  "\<exists>ms. bible_meta_list (fold (process_book names) bs g) = bible_meta_list g @ ms \<and>
        subseq (map book_abbr ms) (admitted_codes bs)"
proof (induction bs arbitrary: g)
  case Nil
  then show ?case by simp
next
  case (Cons b bs)
  obtain ms1 where 1: "bible_meta_list (process_book names b g) = bible_meta_list g @ ms1"
    "subseq (map book_abbr ms1) (admitted_codes [b])"
    using process_book_meta by blast
  obtain ms2 where 2: "bible_meta_list (fold (process_book names) bs (process_book names b g)) =
      bible_meta_list (process_book names b g) @ ms2"
    "subseq (map book_abbr ms2) (admitted_codes bs)"
    using Cons.IH by blast
  have "subseq (map book_abbr (ms1 @ ms2)) (admitted_codes [b] @ admitted_codes bs)"
    using 1(2) 2(2) by (simp add: list_emb_append_mono)
  with 1 2 show ?case
    by (simp add: admitted_codes_Cons[of b bs])
qed

lemma admitted_codes_canonical: "set (admitted_codes bs) \<subseteq> PROTESTANT_CANON_CODES"
  by (auto simp: admitted_codes_def)

lemma step2_D:
  assumes "step2 src = Inr g"
  obtains names root where "usfx_source src = Parsed root"
    and "g = process_books names (find_book_elements root)"
  using assms
  by (auto simp: step2_def load_xml_def Let_def split: sum.splits xml_source.splits if_splits)

lemma step2_book_order:
  assumes "step2 src = Inr g" and "usfx_source src = Parsed root"
  shows "book_order g = admitted_codes (find_book_elements root)"
proof -
  from assms(1) obtain names root' where "usfx_source src = Parsed root'"
    "g = process_books names (find_book_elements root')" by (rule step2_D)
  with assms(2) show ?thesis
    by (simp add: process_books_def fold_process_book_order initial_globals_def)
qed

lemma step2_meta:
  assumes "step2 src = Inr g" and "usfx_source src = Parsed root"
  shows "subseq (map book_abbr (bible_meta_list g)) (admitted_codes (find_book_elements root))"
proof -
  from assms(1) obtain names root' where "usfx_source src = Parsed root'"
    "g = process_books names (find_book_elements root')" by (rule step2_D)
  with assms(2) fold_process_book_meta[of names "find_book_elements root" initial_globals]
  show ?thesis
    by (auto simp: process_books_def initial_globals_def)
qed

lemma subseq_set: "subseq xs ys \<Longrightarrow> set xs \<subseteq> set ys"
  by (auto dest: list_emb_set)

lemma final_meta_list_distinct:
  assumes "distinct order" and "subseq (map book_abbr ms) order"
  shows "final_meta_list order ms = ms"
  using assms
proof (induction order arbitrary: ms)
  case Nil
  then show ?case by (cases ms) (simp_all add: final_meta_list_def)
next
  case (Cons c cs)
  note IH = Cons.IH and dist = Cons.prems(1) and sub = Cons.prems(2)
  have rest: "filter (\<lambda>m. book_abbr m = c) ms' = []" if "set (map book_abbr ms') \<subseteq> set cs"
    for ms' :: "book_meta list"
    using dist that by (auto simp: filter_empty_conv)
  show ?case
  proof (cases ms)
    case Nil
    then show ?thesis by (simp add: final_meta_list_def)
  next
    case ms: (Cons m ms')
    show ?thesis
    proof (cases "book_abbr m = c")
      case True
      with ms sub have sub': "subseq (map book_abbr ms') cs" by simp
      then have in_cs: "set (map book_abbr ms') \<subseteq> set cs" by (rule subseq_set)
      have "map (\<lambda>book_code. filter (\<lambda>meta. book_abbr meta = book_code) (m # ms')) cs =
            map (\<lambda>book_code. filter (\<lambda>meta. book_abbr meta = book_code) ms') cs"
        using True dist by (intro map_cong) auto
      then have "final_meta_list cs (m # ms') = final_meta_list cs ms'"
        unfolding final_meta_list_def by (rule arg_cong[where f = concat])
      moreover have "final_meta_list cs ms' = ms'" using IH sub' dist by simp
      ultimately show ?thesis using True ms rest[OF in_cs]
        by (simp add: final_meta_list_def)
    next
      case False
      with ms sub have sub': "subseq (map book_abbr ms) cs" by simp
      then have in_cs: "set (map book_abbr ms) \<subseteq> set cs" by (rule subseq_set)
      have "final_meta_list cs ms = ms" using IH sub' dist by simp
      with rest[OF in_cs] show ?thesis
        by (simp add: final_meta_list_def)
    qed
  qed
qed

text \<open>
  Claim C1, as the code has it. For every scripture document in which no canonical code
  is carried by two book elements, the book codes of the metadata written to the book
  metadata artifact are a subsequence of the codes of the admitted book elements, in the
  order in which those elements stand in the document.
\<close>

theorem meta_in_document_order:
  assumes "main src = Inr out" and "usfx_source src = Parsed root"
    and "distinct (admitted_codes (find_book_elements root))"
  shows "subseq (map book_abbr (meta_artifact out)) (admitted_codes (find_book_elements root))"
proof -
  from assms(1) obtain g where g: "step2 src = Inr g"
    and m: "meta_artifact out = final_meta_list (book_order g) (bible_meta_list g)"
    by (auto simp: main_def split: sum.splits)
  from step2_book_order[OF g assms(2)] step2_meta[OF g assms(2)] assms(3) m
  show ?thesis by (simp add: final_meta_list_distinct)
qed

theorem meta_in_document_order_witness:
  "main exo_gen_sources = Inr exo_gen_outputs \<and>
   usfx_source exo_gen_sources = Parsed exo_gen_usfx \<and>
   distinct (admitted_codes (find_book_elements exo_gen_usfx)) \<and>
   subseq (map book_abbr (meta_artifact exo_gen_outputs))
          (admitted_codes (find_book_elements exo_gen_usfx))"
proof -
  have h1: "main exo_gen_sources = Inr exo_gen_outputs" by code_simp
  have h2: "usfx_source exo_gen_sources = Parsed exo_gen_usfx"
    by (simp add: exo_gen_sources_def)
  have h3: "distinct (admitted_codes (find_book_elements exo_gen_usfx))" by code_simp
  from meta_in_document_order [OF h1 h2 h3] h1 h2 h3 show ?thesis by blast
qed

text \<open>
  Claim C1 as stated fails: for a document that holds Exodus before Genesis the written
  metadata lists \<^verbatim>\<open>EXO\<close> before \<^verbatim>\<open>GEN\<close>, which is not the canonical order.
\<close>

theorem meta_order_counterexample:
  "main exo_gen_sources = Inr exo_gen_outputs \<and>
   map book_abbr (meta_artifact exo_gen_outputs) = [''EXO'', ''GEN''] \<and>
   canon_index ''GEN'' < canon_index ''EXO'' \<and>
   \<not> in_canonical_order (map book_abbr (meta_artifact exo_gen_outputs))"
  by code_simp

section \<open>Acceptance of book tokens\<close>

lemma empty_not_canonical: "[] \<notin> PROTESTANT_CANON_CODES"
  by code_simp

lemma standardize_accepts_iff:
  assumes "verse_pattern_match tok = Some (g1, chapter, verse)"
    and "K \<subseteq> PROTESTANT_CANON_CODES"
  shows "standardize_verse_ref tok M K \<noteq> None \<longleftrightarrow>
         (\<exists>code\<in>K. M (strip g1) = Some code \<or> strip g1 = code \<or> upper (strip g1) = code)"
proof -
  have ne: "\<And>c. c \<in> K \<Longrightarrow> c \<noteq> []" using assms(2) empty_not_canonical by blast
  show ?thesis
  proof (cases "M (strip g1)")
    case None
    with assms(1) show ?thesis by (auto simp: standardize_verse_ref_def Let_def)
  next
    case (Some c)
    with assms(1) ne show ?thesis by (auto simp: standardize_verse_ref_def Let_def)
  qed
qed

text \<open>
  Claim C2, as the code has it. The known-canon set of the linking stage is the set of
  the canonical codes carried by book elements of the scripture document (the books
  that were processed), a subset of the 66 codes. A citation token that matches the
  pattern is accepted exactly when its book part resolves, through the abbreviation
  table, as it stands, or upper-cased, to a code of that set.
\<close>

theorem standardize_accepts_extracted_books:
  assumes "step2 src = Inr g" and "usfx_source src = Parsed root"
    and "verse_pattern_match tok = Some (g1, chapter, verse)"
  shows "known_canon_abbrs_set_of g = set (admitted_codes (find_book_elements root)) \<and>
         known_canon_abbrs_set_of g \<subseteq> PROTESTANT_CANON_CODES \<and>
         (standardize_verse_ref tok ABBR_MAP (known_canon_abbrs_set_of g) \<noteq> None \<longleftrightarrow>
            (\<exists>code\<in>known_canon_abbrs_set_of g.
               ABBR_MAP (strip g1) = Some code \<or> strip g1 = code \<or> upper (strip g1) = code))"
proof -
  have k: "known_canon_abbrs_set_of g = set (admitted_codes (find_book_elements root))"
    using step2_book_order[OF assms(1,2)] by (simp add: known_canon_abbrs_set_of_def)
  then have c: "known_canon_abbrs_set_of g \<subseteq> PROTESTANT_CANON_CODES"
    by (simp add: admitted_codes_canonical)
  from k c standardize_accepts_iff[OF assms(3) c] show ?thesis by blast
qed

theorem standardize_accepts_extracted_books_witness:
  "step2 scenario_sources = Inr scenario_globals \<and>
   usfx_source scenario_sources = Parsed scenario_usfx \<and>
   verse_pattern_match ''Gen.1.1'' = Some (''Gen'', ''1'', ''1'') \<and>
   known_canon_abbrs_set_of scenario_globals = set (admitted_codes (find_book_elements scenario_usfx)) \<and>
   known_canon_abbrs_set_of scenario_globals \<subseteq> PROTESTANT_CANON_CODES \<and>
   (standardize_verse_ref ''Gen.1.1'' ABBR_MAP (known_canon_abbrs_set_of scenario_globals) \<noteq> None \<longleftrightarrow>
      (\<exists>code\<in>known_canon_abbrs_set_of scenario_globals.
         ABBR_MAP (strip ''Gen'') = Some code \<or> strip ''Gen'' = code \<or> upper (strip ''Gen'') = code))"
proof -
  have h1: "step2 scenario_sources = Inr scenario_globals" by code_simp
  have h2: "usfx_source scenario_sources = Parsed scenario_usfx"
    by (simp add: scenario_sources_def)
  have h3: "verse_pattern_match ''Gen.1.1'' = Some (''Gen'', ''1'', ''1'')" by code_simp
  from standardize_accepts_extracted_books [OF h1 h2 h3] h1 h2 h3 show ?thesis by blast
qed

text \<open>
  Claim C2 as stated fails: when only Genesis was extracted, \<^verbatim>\<open>Rom.8.28\<close> is rejected
  although its book part resolves to the canonical code \<^verbatim>\<open>ROM\<close>.
\<close>

theorem canon_set_counterexample:
  "step2 scenario_sources = Inr scenario_globals \<and>
   known_canon_abbrs_set_of scenario_globals = {''GEN''} \<and>
   verse_pattern_match ''Rom.8.28'' = Some (''Rom'', ''8'', ''28'') \<and>
   ABBR_MAP (strip ''Rom'') = Some ''ROM'' \<and>
   ''ROM'' \<in> PROTESTANT_CANON_CODES \<and>
   standardize_verse_ref ''Rom.8.28'' ABBR_MAP (known_canon_abbrs_set_of scenario_globals) = None"
  by code_simp

section \<open>Citations with leading zeros\<close>

subsection \<open>Decimal numerals\<close>

lemma is_digit_digit_char: "d < 10 \<Longrightarrow> is_digit (digit_char d)"
  unfolding is_digit_def digit_char_def by (rule nth_mem) simp

lemma digit_char_zero: "d < 10 \<Longrightarrow> digit_char d = CHR ''0'' \<longleftrightarrow> d = 0"
proof -
  assume d: "d < 10"
  have "distinct ''0123456789''" by simp
  from nth_eq_iff_index_eq[OF this, of d 0] d show ?thesis
    by (simp add: digit_char_def)
qed

lemma str_nat_not_Nil: "str_nat n \<noteq> []"
  by (subst str_nat.simps) simp

lemma str_nat_digits: "c \<in> set (str_nat n) \<Longrightarrow> is_digit c"
proof (induction n arbitrary: c rule: str_nat.induct)
  case (1 n)
  show ?case
  proof (cases "n < 10")
    case True
    with "1.prems" show ?thesis
      by (subst (asm) str_nat.simps) (simp add: is_digit_digit_char)
  next
    case False
    with "1.prems" have "c \<in> set (str_nat (n div 10)) \<or> c = digit_char (n mod 10)"
      by (subst (asm) str_nat.simps) auto
    with "1.IH"[OF False] show ?thesis
      by (auto simp: is_digit_digit_char)
  qed
qed

lemma hd_str_nat: "0 < n \<Longrightarrow> hd (str_nat n) \<noteq> CHR ''0''"
proof (induction n rule: str_nat.induct)
  case (1 n)
  show ?case
  proof (cases "n < 10")
    case True
    with "1.prems" show ?thesis
      by (subst str_nat.simps) (simp add: digit_char_zero)
  next
    case False
    then have "0 < n div 10" by simp
    with "1.IH"[OF False] False show ?thesis
      by (subst str_nat.simps) (simp add: str_nat_not_Nil)
  qed
qed

lemma str_int_pos:
  assumes "0 < i"
  shows "str_int i \<noteq> []" and "\<And>c. c \<in> set (str_int i) \<Longrightarrow> is_digit c"
    and "hd (str_int i) \<noteq> CHR ''0''"
  using assms by (simp_all add: str_int_def str_nat_not_Nil str_nat_digits hd_str_nat)

subsection \<open>Reading a VerseID back\<close>

lemma split_at_sep:
  assumes "c \<notin> set xs" and "c \<notin> set ys" and "xs @ c # r1 = ys @ c # r2"
  shows "xs = ys \<and> r1 = r2"
  using assms
proof (induction xs arbitrary: ys)
  case Nil
  then show ?case by (cases ys) auto
next
  case (Cons x xs)
  then show ?case by (cases ys) auto
qed

lemma is_digit_not_colon: "is_digit c \<Longrightarrow> c \<noteq> CHR '':''"
  by (auto simp: is_digit_def)

lemma verse_ref_inject:
  assumes "verse_ref a1 c1 v1 = verse_ref a2 c2 v2" and "length a1 = length a2"
    and "\<And>c. c \<in> set c1 \<Longrightarrow> is_digit c" and "\<And>c. c \<in> set c2 \<Longrightarrow> is_digit c"
  shows "a1 = a2 \<and> c1 = c2 \<and> v1 = v2"
proof -
  from assms(1,2) have a: "a1 = a2" and r: "c1 @ CHR '':'' # v1 = c2 @ CHR '':'' # v2"
    by (simp_all add: verse_ref_def)
  have "CHR '':'' \<notin> set c1" "CHR '':'' \<notin> set c2"
    using assms(3,4) is_digit_not_colon by blast+
  from split_at_sep[OF this r] a show ?thesis by simp
qed

lemma canon_code_length: "c \<in> PROTESTANT_CANON_CODES \<Longrightarrow> length c = 3"
  by (auto simp: PROTESTANT_CANON_CODES_def canon_codes_listed_def)

subsection \<open>The groups of the citation pattern\<close>

lemma star_cls_sound: "(m, r) \<in> set (star_cls p s) \<Longrightarrow> s = m @ r \<and> (\<forall>c\<in>set m. p c)"
  by (induction s arbitrary: m r) (auto split: if_splits)

lemma plus_cls_sound:
  "(m, r) \<in> set (plus_cls p s) \<Longrightarrow> s = m @ r \<and> m \<noteq> [] \<and> (\<forall>c\<in>set m. p c)"
  by (auto simp: plus_cls_def dest: star_cls_sound)

lemma verse_pattern_matches_digits:
  assumes "(g1, chapter, verse) \<in> set (verse_pattern_matches s)"
  shows "chapter \<noteq> [] \<and> (\<forall>c\<in>set chapter. is_digit c) \<and>
         verse \<noteq> [] \<and> (\<forall>c\<in>set verse. is_digit c)"
  using assms unfolding verse_pattern_matches_def
  by (auto dest!: plus_cls_sound split: if_splits)

lemma verse_pattern_match_digits:
  assumes "verse_pattern_match s = Some (g1, chapter, verse)"
  shows "chapter \<noteq> [] \<and> (\<forall>c\<in>set chapter. is_digit c) \<and>
         verse \<noteq> [] \<and> (\<forall>c\<in>set verse. is_digit c)"
proof -
  from assms have "(g1, chapter, verse) \<in> set (verse_pattern_matches s)"
    by (auto simp: verse_pattern_match_def split: list.splits)
  then show ?thesis by (rule verse_pattern_matches_digits)
qed

lemma standardize_SomeD:
  assumes "standardize_verse_ref tok M K = Some vid"
  obtains g1 ch vs abbr where "verse_pattern_match tok = Some (g1, ch, vs)"
    and "abbr \<in> K" and "vid = verse_ref abbr ch vs"
  using assms
  by (auto simp: standardize_verse_ref_def Let_def split: option.splits if_splits)

subsection \<open>The keys of the verse text\<close>

lemma text_keys_ok_cong:
  "bible_text_dict g' = bible_text_dict g \<Longrightarrow> text_keys_ok g \<Longrightarrow> text_keys_ok g'"
  by (simp add: text_keys_ok_def)

lemma text_keys_ok_flush:
  assumes "text_keys_ok g" and "abbr \<in> PROTESTANT_CANON_CODES"
    and "0 < current_chapter_num g" and "0 < collecting_text_for_verse g"
  shows "text_keys_ok (flush abbr g)"
proof -
  let ?key = "verse_ref abbr (str_int (current_chapter_num g))
                             (str_int (collecting_text_for_verse g))"
  have sub: "fst ` set (bible_text_dict (flush abbr g)) \<subseteq> insert ?key (fst ` set (bible_text_dict g))"
    by (auto simp: flush_def Let_def dom_update)
  show ?thesis
    unfolding text_keys_ok_def
  proof
    fix k assume "k \<in> fst ` set (bible_text_dict (flush abbr g))"
    with sub have "k = ?key \<or> k \<in> fst ` set (bible_text_dict g)" by blast
    then show "\<exists>abbr ch v. abbr \<in> PROTESTANT_CANON_CODES \<and> 0 < ch \<and> 0 < v \<and>
                    k = verse_ref abbr (str_int ch) (str_int v)"
    proof
      assume "k = ?key"
      with assms(2-4) show ?thesis by blast
    next
      assume "k \<in> fst ` set (bible_text_dict g)"
      with assms(1) show ?thesis unfolding text_keys_ok_def by blast
    qed
  qed
qed

lemma text_keys_ok_inner_node:
  assumes "text_keys_ok g" and "abbr \<in> PROTESTANT_CANON_CODES" and "0 < current_chapter_num g"
  shows "text_keys_ok (process_inner_node abbr n g)"
proof -
  have f: "0 < collecting_text_for_verse g \<Longrightarrow> text_keys_ok (flush abbr g)"
    using assms by (simp add: text_keys_ok_flush)
  have "bible_text_dict (process_inner_node abbr n g) = bible_text_dict g \<or>
        (0 < collecting_text_for_verse g \<and>
         bible_text_dict (process_inner_node abbr n g) = bible_text_dict (flush abbr g))"
    by (auto simp: process_inner_node_def append_text_def Let_def split: option.splits)
  with f assms(1) show ?thesis
    by (auto intro: text_keys_ok_cong)
qed

lemma text_keys_ok_fold_inner:
  assumes "text_keys_ok g" and "abbr \<in> PROTESTANT_CANON_CODES" and "0 < current_chapter_num g"
  shows "text_keys_ok (fold (process_inner_node abbr) ns g)"
  using assms
  by (induction ns arbitrary: g) (simp_all add: text_keys_ok_inner_node process_inner_node_frame)

lemma text_keys_ok_children:
  assumes "text_keys_ok g" and "abbr \<in> PROTESTANT_CANON_CODES"
  shows "text_keys_ok (process_book_children abbr ns g)"
  using assms
proof (induction abbr ns g rule: process_book_children.induct)
  case (1 abbr g)
  then show ?case by simp
next
  case (2 abbr n rest g)
  show ?case
  proof (cases "el_tag n = ''c''")
    case True
    have c: "text_keys_ok (close_chapter g)"
      using "2.prems"(1) by (rule text_keys_ok_cong[rotated]) (simp add: close_chapter_frame)
    show ?thesis
    proof (cases "py_int (elem_get n ''id'')")
      case None
      with True c show ?thesis
        by (auto simp: Let_def intro: text_keys_ok_cong[of _ "close_chapter g"])
    next
      case (Some k)
      have "text_keys_ok (close_chapter g\<lparr>current_chapter_num := k, last_verse_in_chapter := 0\<rparr>)"
        using c by (rule text_keys_ok_cong[rotated]) simp
      with "2.IH"(1)[OF True refl Some _ "2.prems"(2)] True Some show ?thesis
        by (simp add: Let_def)
    qed
  next
    case False
    show ?thesis
    proof (cases "0 < current_chapter_num g")
      case True
      have "text_keys_ok (g\<lparr>verse_text_buffer := [], collecting_text_for_verse := 0\<rparr>)"
        using "2.prems"(1) by (rule text_keys_ok_cong[rotated]) simp
      then have "text_keys_ok (fold (process_inner_node abbr) (iter n)
                   (g\<lparr>verse_text_buffer := [], collecting_text_for_verse := 0\<rparr>))"
        using "2.prems"(2) True by (intro text_keys_ok_fold_inner) simp_all
      with "2.IH"(2)[OF False True _ "2.prems"(2)] False True show ?thesis by simp
    next
      case nc: False
      with "2.IH"(3)[OF False nc "2.prems"] False show ?thesis by simp
    qed
  qed
qed

lemma text_keys_ok_process_book:
  assumes "text_keys_ok g"
  shows "text_keys_ok (process_book names b g)"
proof (cases "\<not> truthy (elem_get b ''id'') \<or> str_of (elem_get b ''id'') \<notin> PROTESTANT_CANON_CODES")
  case True
  with assms show ?thesis by (auto simp: process_book_def Let_def)
next
  case False
  let ?abbr = "str_of (elem_get b ''id'')"
  let ?g1 = "g\<lparr>book_order := book_order g @ [?abbr], chapter_verse_counts := [],
                 last_verse_in_chapter := 0, current_chapter_num := 0\<rparr>"
  have "text_keys_ok ?g1" using assms by (rule text_keys_ok_cong[rotated]) simp
  then have k: "text_keys_ok (process_book_children ?abbr (el_children b) ?g1)"
    using False by (intro text_keys_ok_children) simp_all
  have "bible_text_dict (process_book names b g) =
        bible_text_dict (process_book_children ?abbr (el_children b) ?g1)"
    using False by (simp add: process_book_def Let_def close_chapter_frame)
  from this k show ?thesis by (rule text_keys_ok_cong)
qed

lemma text_keys_ok_fold_books:
  "text_keys_ok g \<Longrightarrow> text_keys_ok (fold (process_book names) bs g)"
  by (induction bs arbitrary: g) (simp_all add: text_keys_ok_process_book)

lemma step2_text_keys_ok:
  assumes "step2 src = Inr g"
  shows "text_keys_ok g"
proof -
  from assms obtain names root where "g = process_books names (find_book_elements root)"
    by (rule step2_D)
  moreover have "text_keys_ok initial_globals"
    by (simp add: text_keys_ok_def initial_globals_def)
  ultimately show ?thesis
    by (simp add: process_books_def text_keys_ok_fold_books)
qed

lemma step2_known_canon:
  assumes "step2 src = Inr g"
  shows "known_canon_abbrs_set_of g \<subseteq> PROTESTANT_CANON_CODES"
proof -
  from assms obtain names root where r: "usfx_source src = Parsed root"
    "g = process_books names (find_book_elements root)" by (rule step2_D)
  from step2_book_order[OF assms r(1)] show ?thesis
    by (simp add: known_canon_abbrs_set_of_def admitted_codes_canonical)
qed

lemma known_verse_form:
  assumes "step2 src = Inr g" and "vid \<in> known_verses_of g"
  obtains abbr n k where "abbr \<in> PROTESTANT_CANON_CODES" and "0 < n" and "0 < k"
    and "vid = verse_ref abbr (str_int n) (str_int k)"
proof -
  from assms(2) have mem: "vid \<in> fst ` set (bible_text_dict g)"
    by (simp add: known_verses_of_def)
  from step2_text_keys_ok[OF assms(1)]
  have "\<forall>k \<in> fst ` set (bible_text_dict g).
        \<exists>abbr ch v. abbr \<in> PROTESTANT_CANON_CODES \<and> 0 < ch \<and> 0 < v \<and>
                    k = verse_ref abbr (str_int ch) (str_int v)"
    by (simp only: text_keys_ok_def)
  from this mem have "\<exists>abbr ch v. abbr \<in> PROTESTANT_CANON_CODES \<and> 0 < ch \<and> 0 < v \<and>
                    vid = verse_ref abbr (str_int ch) (str_int v)"
    by (rule bspec)
  with that show thesis by blast
qed

lemma leading_zero_not_known:
  assumes g: "step2 src = Inr g"
    and m: "verse_pattern_match tok = Some (g1, chapter, verse)"
    and z: "hd chapter = CHR ''0'' \<or> hd verse = CHR ''0''"
    and s: "standardize_verse_ref tok ABBR_MAP (known_canon_abbrs_set_of g) = Some vid"
  shows "(\<exists>abbr\<in>known_canon_abbrs_set_of g. vid = verse_ref abbr chapter verse) \<and>
         vid \<notin> known_verses_of g"
proof -
  from s obtain g1' ch vs abbr where m': "verse_pattern_match tok = Some (g1', ch, vs)"
    and a: "abbr \<in> known_canon_abbrs_set_of g" and v: "vid = verse_ref abbr ch vs"
    by (rule standardize_SomeD)
  from m m' have e: "ch = chapter" "vs = verse" by simp_all
  from verse_pattern_match_digits[OF m]
  have d: "\<And>c. c \<in> set chapter \<Longrightarrow> is_digit c" by blast
  have "abbr \<in> PROTESTANT_CANON_CODES"
    using a step2_known_canon[OF g] by (rule subsetD[rotated])
  then have la: "length abbr = 3" by (rule canon_code_length)
  have "vid \<notin> known_verses_of g"
  proof
    assume "vid \<in> known_verses_of g"
    with g obtain abbr' n k where
      k: "abbr' \<in> PROTESTANT_CANON_CODES" "0 < n" "0 < k"
         "vid = verse_ref abbr' (str_int n) (str_int k)"
      by (rule known_verse_form)
    from k(1) la have len: "length abbr = length abbr'" by (simp add: canon_code_length)
    from v e k(4) have eq: "verse_ref abbr chapter verse = verse_ref abbr' (str_int n) (str_int k)"
      by simp
    have dn: "\<And>c. c \<in> set (str_int n) \<Longrightarrow> is_digit c"
      using k(2) by (rule str_int_pos(2))
    from verse_ref_inject[OF eq len d dn]
    have cv: "chapter = str_int n" "verse = str_int k" by simp_all
    have "hd chapter \<noteq> CHR ''0''" "hd verse \<noteq> CHR ''0''"
      using str_int_pos(3)[OF k(2)] str_int_pos(3)[OF k(3)] cv by simp_all
    with z show False by blast
  qed
  with a v e show ?thesis by blast
qed

lemma standardize_Gen_01_1:
  assumes "''GEN'' \<in> K"
  shows "standardize_verse_ref ''Gen.01.1'' ABBR_MAP K = Some ''GEN 01:1''"
proof -
  have "verse_pattern_match ''Gen.01.1'' = Some (''Gen'', ''01'', ''1'')" by code_simp
  with assms show ?thesis
    by (simp add: standardize_verse_ref_def strip_book_parts ABBR_MAP_book_parts verse_ref_def)
qed

text \<open>
  Claim C9. A citation token whose chapter or verse digits start with a zero is
  standardized with those digits unchanged (\<^verbatim>\<open>Gen.01.1\<close> gives \<^verbatim>\<open>GEN 01:1\<close>, see
  \<open>standardize_Gen_01_1\<close>); every key of the verse text is written from positive
  integers, so the standardized VerseID is no key of the verse text, and it is neither
  a key nor a member of an adjacency list of the written graph.
\<close>

theorem leading_zero_never_linked:
  assumes "step2 src = Inr g"
    and "verse_pattern_match tok = Some (g1, chapter, verse)"
    and "hd chapter = CHR ''0'' \<or> hd verse = CHR ''0''"
    and "standardize_verse_ref tok ABBR_MAP (known_canon_abbrs_set_of g) = Some vid"
    and "main src = Inr out"
  shows "(\<exists>abbr\<in>known_canon_abbrs_set_of g. vid = verse_ref abbr chapter verse) \<and>
         vid \<notin> fst ` set (text_artifact out) \<and>
         vid \<notin> fst ` set (refs_artifact out) \<and>
         vid \<notin> \<Union> (set ` snd ` set (refs_artifact out))"
proof -
  from assms(5) assms(1) have t: "text_artifact out = bible_text_dict g"
    by (auto simp: main_def split: sum.splits)
  from leading_zero_not_known[OF assms(1-4)] t
  have 1: "\<exists>abbr\<in>known_canon_abbrs_set_of g. vid = verse_ref abbr chapter verse"
    and 2: "vid \<notin> fst ` set (text_artifact out)"
    by (simp_all add: known_verses_of_def)
  have 3: "vid \<notin> fst ` set (refs_artifact out)"
  proof
    assume "vid \<in> fst ` set (refs_artifact out)"
    then obtain bs where "(vid, bs) \<in> set (refs_artifact out)" by auto
    with assms(5) have "vid \<in> fst ` set (text_artifact out)" by (rule main_refs_inv)
    with 2 show False by blast
  qed
  have 4: "vid \<notin> \<Union> (set ` snd ` set (refs_artifact out))"
  proof
    assume "vid \<in> \<Union> (set ` snd ` set (refs_artifact out))"
    then obtain a bs where ab: "(a, bs) \<in> set (refs_artifact out)" "vid \<in> set bs" by auto
    from assms(5) ab(1) obtain s where
      s: "bs = sorted_list_of_set s" "finite s" "s \<subseteq> fst ` set (text_artifact out)"
      by (rule main_refs_inv)
    from s(1,2) ab(2) have "vid \<in> s" by simp
    with s(3) 2 show False by blast
  qed
  from 1 2 3 4 show ?thesis by blast
qed

lemma main_leading_zero:
  "main leading_zero_sources = Inr (scenario_outputs\<lparr>refs_artifact := []\<rparr>)"
  by code_simp

theorem leading_zero_never_linked_witness:
  "step2 leading_zero_sources = Inr scenario_globals \<and>
   verse_pattern_match ''Gen.01.1'' = Some (''Gen'', ''01'', ''1'') \<and>
   hd ''01'' = CHR ''0'' \<and>
   standardize_verse_ref ''Gen.01.1'' ABBR_MAP (known_canon_abbrs_set_of scenario_globals) =
     Some ''GEN 01:1'' \<and>
   main leading_zero_sources = Inr (scenario_outputs\<lparr>refs_artifact := []\<rparr>) \<and>
   ''GEN 01:1'' \<notin> fst ` set (text_artifact (scenario_outputs\<lparr>refs_artifact := []\<rparr>)) \<and>
   ''GEN 01:1'' \<notin> fst ` set (refs_artifact (scenario_outputs\<lparr>refs_artifact := []\<rparr>)) \<and>
   ''GEN 01:1'' \<notin> \<Union> (set ` snd ` set (refs_artifact (scenario_outputs\<lparr>refs_artifact := []\<rparr>)))"
proof -
  have h1: "step2 leading_zero_sources = Inr scenario_globals" by code_simp
  have h2: "verse_pattern_match ''Gen.01.1'' = Some (''Gen'', ''01'', ''1'')" by code_simp
  have h3: "hd ''01'' = CHR ''0'' \<or> hd ''1'' = CHR ''0''" by simp
  have h4: "standardize_verse_ref ''Gen.01.1'' ABBR_MAP (known_canon_abbrs_set_of scenario_globals) =
     Some ''GEN 01:1''"
    by (rule standardize_Gen_01_1) (simp add: known_canon_abbrs_set_of_def scenario_globals_def)
  have h5: "main leading_zero_sources = Inr (scenario_outputs\<lparr>refs_artifact := []\<rparr>)"
    by (rule main_leading_zero)
  from leading_zero_never_linked [OF h1 h2 h3 h4 h5] h1 h2 h4 h5 show ?thesis by simp
qed

section \<open>Verse markers and text runs\<close>

text \<open>
  A verse-start marker met while a verse is being collected: the id of the marker is
  read first. When it is a number, the buffer of the previous verse is stored under the
  previous verse's ID (unless the cleaned text is empty). When it is not, nothing is
  stored and no verse is collected any more.
\<close>

lemma verse_marker_cases:
  assumes "el_tag node = ''v''" and "0 < collecting_text_for_verse g"
  shows "(case py_int (elem_get node ''id'') of
            Some n \<Rightarrow>
              bible_text_dict (process_inner_node abbr node g) =
                (let prev_verse_id = verse_ref abbr (str_int (current_chapter_num g))
                                       (str_int (collecting_text_for_verse g));
                     cleaned_text = strip (collapse_ws (verse_text_buffer g))
                 in if cleaned_text \<noteq> []
                    then AList.update prev_verse_id cleaned_text (bible_text_dict g)
                    else bible_text_dict g) \<and>
              collecting_text_for_verse (process_inner_node abbr node g) = n
          | None \<Rightarrow>
              bible_text_dict (process_inner_node abbr node g) = bible_text_dict g \<and>
              collecting_text_for_verse (process_inner_node abbr node g) = 0)"
proof (cases "py_int (elem_get node ''id'')")
  case None
  with assms show ?thesis
    by (simp add: process_inner_node_def append_text_def Let_def)
next
  case (Some n)
  with assms show ?thesis
    by (simp add: process_inner_node_def append_text_def flush_def Let_def)
qed

text \<open>
  The state \<open>collecting_globals\<close> is the one that the first verse marker of
  \<open>bad_verse_id_book\<close> leaves, starting from the state at the opening of the paragraph.
\<close>

lemma collecting_globals_reached:
  "process_inner_node ''GEN''
     (Element ''v'' [(''id'', ''1'')] None (Some ''In the beginning'') [])
     (collecting_globals\<lparr>last_verse_in_chapter := 0, collecting_text_for_verse := 0,
                         verse_text_buffer := []\<rparr>) = collecting_globals"
  by code_simp

text \<open>
  Claim C3. The claim holds that the buffer of the previous verse is stored at every
  verse-start marker, also when the id of the new marker is no number. The script does
  not do so: verse 1 of chapter 1 is being collected with the words
  \<^verbatim>\<open>In the beginning\<close> in the buffer; a marker with the id \<^verbatim>\<open>2a\<close> leaves the verse text
  empty, whereas a marker with the id \<^verbatim>\<open>2\<close> and an end marker both store the words
  under \<^verbatim>\<open>GEN 1:1\<close>; and the whole run on \<open>bad_verse_id_book\<close> writes no text for
  \<^verbatim>\<open>GEN 1:1\<close>.
\<close>

theorem bad_verse_id_drops_text:
  "el_tag bad_verse_marker = ''v'' \<and>
   0 < collecting_text_for_verse collecting_globals \<and>
   strip (collapse_ws (verse_text_buffer collecting_globals)) = ''In the beginning'' \<and>
   py_int (elem_get bad_verse_marker ''id'') = None \<and>
   bible_text_dict (process_inner_node ''GEN'' bad_verse_marker collecting_globals) = [] \<and>
   bible_text_dict (process_inner_node ''GEN'' good_verse_marker collecting_globals) =
     [(''GEN 1:1'', ''In the beginning'')] \<and>
   bible_text_dict (process_inner_node ''GEN'' verse_end_marker collecting_globals) =
     [(''GEN 1:1'', ''In the beginning'')] \<and>
   main bad_verse_id_sources = Inr bad_verse_id_outputs \<and>
   map_of (text_artifact bad_verse_id_outputs) ''GEN 1:1'' = None"
  by code_simp

text \<open>
  Claim C4, as the code has it. While a verse is being collected, the stripped text of
  a word run node (\<^verbatim>\<open>w\<close>) is appended to the buffer followed by one space, unless it is
  empty; the text of a character run node (\<^verbatim>\<open>char\<close>) is not appended. For both, a
  tail that is not empty is appended, stripped and followed by one space.
\<close>

theorem run_text_appended:
  assumes "0 < collecting_text_for_verse g"
    and "el_tag node = ''w'' \<or> el_tag node = ''char''"
  shows "verse_text_buffer (process_inner_node abbr node g) =
           verse_text_buffer g @
           (if el_tag node = ''w'' \<and> truthy (el_text node) \<and> strip (str_of (el_text node)) \<noteq> []
            then strip (str_of (el_text node)) @ '' '' else []) @
           (if truthy (el_tail node) then strip (str_of (el_tail node)) @ '' '' else [])"
  using assms
  by (auto simp: process_inner_node_def append_text_def Let_def)

theorem run_text_appended_witness:
  "0 < collecting_text_for_verse collecting_globals \<and>
   el_tag word_run_node = ''w'' \<and> el_tag char_run_node = ''char'' \<and>
   verse_text_buffer (process_inner_node ''GEN'' word_run_node collecting_globals) =
     ''In the beginning the earth '' \<and>
   verse_text_buffer (process_inner_node ''GEN'' char_run_node collecting_globals) =
     ''In the beginning God made ''"
proof -
  have h1: "0 < collecting_text_for_verse collecting_globals"
    by (simp add: collecting_globals_def)
  have w: "el_tag word_run_node = ''w''" by (simp add: word_run_node_def)
  have c: "el_tag char_run_node = ''char''" by (simp add: char_run_node_def)
  have h2: "el_tag word_run_node = ''w'' \<or> el_tag word_run_node = ''char''" using w by simp
  have h2': "el_tag char_run_node = ''w'' \<or> el_tag char_run_node = ''char''" using c by simp
  have e: "strip (str_of (el_text word_run_node)) = ''the earth''"
    "truthy (el_text word_run_node)" "\<not> truthy (el_tail word_run_node)"
    "truthy (el_tail char_run_node)" "strip (str_of (el_tail char_run_node)) = ''God made''"
    "verse_text_buffer collecting_globals = ''In the beginning ''"
    by code_simp+
  from run_text_appended [OF h1 h2, of "''GEN''"] run_text_appended [OF h1 h2', of "''GEN''"]
    h1 w c e
  show ?thesis by simp
qed

text \<open>
  Claim C4 as stated fails: the text \<^verbatim>\<open>Yahweh\<close> of a character run met while a verse is
  collected does not reach the buffer, and the verse written by the whole run lacks it.
\<close>

theorem char_run_counterexample:
  "0 < collecting_text_for_verse collecting_globals \<and>
   el_tag char_run_node = ''char'' \<and> el_text char_run_node = Some ''Yahweh'' \<and>
   verse_text_buffer collecting_globals = ''In the beginning '' \<and>
   verse_text_buffer (process_inner_node ''GEN'' char_run_node collecting_globals) =
     ''In the beginning God made '' \<and>
   main char_run_sources = Inr char_run_outputs \<and>
   map_of (text_artifact char_run_outputs) ''GEN 2:4'' = Some ''in the day that God made the earth''"
  by code_simp

end
